theory Spec2Isabelle
  imports Complex_Main "HOL-Library.Sublist"
begin

section \<open>Data model\<close>

text \<open>
  The travel planner of \<^verbatim>\<open>main.py\<close>. Python dictionaries with a fixed set of keys are
  records; a key that may be missing, or a value that may be \<^verbatim>\<open>None\<close>, is an option.
  Python floats (coordinates, the geocoder's importance score, distances in km) are
  reals: the code only compares them with constants, and NaN is left out. Python's
  unbounded \<^verbatim>\<open>int\<close> is \<open>int\<close>.
\<close>

text \<open>Every exception the modelled code can see, as a value.\<close>

datatype error =
    GeocoderError          \<comment> \<open>the geocoding service raised\<close>
  | DistanceError          \<comment> \<open>\<^verbatim>\<open>geodesic\<close> raised\<close>
  | GeneratorError         \<comment> \<open>a language-model call raised\<close>
  | ToolArgsError          \<comment> \<open>the tool's argument dictionary lacks a parameter\<close>
  | KeyError               \<comment> \<open>\<^verbatim>\<open>state[k]\<close> on a missing key\<close>
  | GraphRecursionError    \<comment> \<open>the graph ran out of steps\<close>

text \<open>The dictionary returned by the resolver: \<^verbatim>\<open>{"name", "address", "coordinates"}\<close>.\<close>

record place =
  name :: string
  address :: string
  coordinates :: "real list"

text \<open>
  A geocoder result (geopy's \<^verbatim>\<open>Location\<close>); \<open>raw_importance\<close> is
  \<^verbatim>\<open>raw.get("importance")\<close>, absent when the raw record has no such key.
\<close>

record location =
  latitude :: real
  longitude :: real
  loc_address :: string
  raw_importance :: "real option"

text \<open>
  \<^verbatim>\<open>TravelGraphState\<close>. The three fields written by the agents are missing from the
  dictionary until their node has run, hence options (\<open>None\<close>: the key is missing).
\<close>

record TravelGraphState =
  destination :: string
  duration_days :: int
  vibe :: string
  user_feedback :: "string option"
  places_to_avoid :: "string list"
  keywords_st :: "string list option"   \<comment> \<open>the key \<^verbatim>\<open>keywords\<close>\<close>
  search_results :: "place list option"
  itinerary_draft :: "string option"

text \<open>
  The prompts. Each f-string is represented by the values interpolated into it, in the
  order of the source; its fixed text is the same for every call and is left out.
\<close>

record vibe_prompt =
  vp_destination :: string
  vp_duration_days :: int
  vp_vibe :: string
  vp_avoid :: "string list"
  vp_target_count :: int

record search_prompt =
  sp_keywords :: "string list"
  sp_location_fixed :: string

record itinerary_prompt =
  ip_destination :: string
  ip_duration_days :: int
  ip_vibe :: string
  ip_search_results :: "place list"

text \<open>A tool call chosen by the tool-invoking generator: \<^verbatim>\<open>{"name": ..., "args": {...}}\<close>.\<close>

record tool_call =
  tc_name :: string
  tc_args :: "(string \<times> string) list"

text \<open>
  The external collaborators: the geocoder (single-result and multi-result calls), the
  distance function, and the three generators. Each may raise.
\<close>

record services =
  geocode :: "string \<Rightarrow> error + location option"
  geocode_many :: "string \<Rightarrow> nat \<Rightarrow> error + location list option"
  geodesic_km :: "real \<times> real \<Rightarrow> real \<times> real \<Rightarrow> error + real"
  llm_hero_structured :: "vibe_prompt \<Rightarrow> error + string list"
  llm_gemini_tools :: "search_prompt \<Rightarrow> error + tool_call list"
  llm_hero :: "itinerary_prompt \<Rightarrow> error + string"

section \<open>Geolocation Resolver: \<^verbatim>\<open>query_places_nominatim\<close>\<close>

text \<open>
  The outbound calls of the resolver, recorded in the order they are made. The pacing
  delay before a call (\<^verbatim>\<open>time.sleep\<close>) and the progress messages have no effect on the
  result and are left out.
\<close>

datatype call =
    GeocodeCall string
  | GeocodeManyCall string nat
  | GeodesicCall "real \<times> real" "real \<times> real"

definition logged :: "call \<Rightarrow> call list \<times> 'a \<Rightarrow> call list \<times> 'a" where
  "logged c r = (c # fst r, snd r)"

text \<open>The calls that belong to the global-search fallback (lines 81-98).\<close>

fun is_geodesic_call :: "call \<Rightarrow> bool" where
  "is_geodesic_call (GeodesicCall a b) = True"
| "is_geodesic_call c = False"

fun is_fallback_call :: "call \<Rightarrow> bool" where
  "is_fallback_call (GeocodeCall q) = False"
| "is_fallback_call c = True"

text \<open>Line 63: \<^verbatim>\<open>city_loc.raw.get("importance", 0.5)\<close>.\<close>

definition importance_of :: "location \<Rightarrow> real" where
  "importance_of city_loc = (case raw_importance city_loc of None \<Rightarrow> 0.5 | Some i \<Rightarrow> i)"

text \<open>Lines 62, 89: the pair \<^verbatim>\<open>(latitude, longitude)\<close> of a geocoder result.\<close>

definition coords_of :: "location \<Rightarrow> real \<times> real" where
  "coords_of loc = (latitude loc, longitude loc)"

text \<open>Lines 68-73: the radius in km for an importance score.\<close>

definition radius_limit :: "real \<Rightarrow> real" where
  "radius_limit importance = (if importance > 0.75 then 30 else 200)"

text \<open>Lines 104-108: the returned dictionary; the name is the query.\<close>

definition make_place :: "string \<Rightarrow> location \<Rightarrow> place" where
  "make_place query place_loc =
     \<lparr>name = query, address = loc_address place_loc,
      coordinates = [longitude place_loc, latitude place_loc]\<rparr>"

text \<open>
  Lines 88-98: the loop over the candidates. It stops at the first candidate within the
  radius; \<open>Inr None\<close> when the loop ends without one.
\<close>

fun scan_candidates ::
  "services \<Rightarrow> real \<times> real \<Rightarrow> real \<Rightarrow> location list \<Rightarrow> call list \<times> (error + location option)"
where
  "scan_candidates sv city_coords radius [] = ([], Inr None)"
| "scan_candidates sv city_coords radius (cand # cands) =
     (let cand_coords = coords_of cand in
      logged (GeodesicCall city_coords cand_coords)
        (case geodesic_km sv city_coords cand_coords of
           Inl e \<Rightarrow> ([], Inl e)
         | Inr dist_km \<Rightarrow>
             if dist_km \<le> radius then ([], Inr (Some cand))
             else scan_candidates sv city_coords radius cands))"

text \<open>Lines 55-108: the body of the \<^verbatim>\<open>try\<close> block.\<close>

definition query_places_try ::
  "services \<Rightarrow> string \<Rightarrow> string \<Rightarrow> call list \<times> (error + place list)"
where
  "query_places_try sv query location_name =
     logged (GeocodeCall location_name)
       (case geocode sv location_name of
          Inl e \<Rightarrow> ([], Inl e)
        | Inr None \<Rightarrow> ([], Inr [])
        | Inr (Some city_loc) \<Rightarrow>
            (let city_coords = coords_of city_loc;
                 importance = importance_of city_loc;
                 radius = radius_limit importance;
                 full_query = query @ '', '' @ location_name
             in logged (GeocodeCall full_query)
                  (case geocode sv full_query of
                     Inl e \<Rightarrow> ([], Inl e)
                   | Inr (Some place_loc) \<Rightarrow> ([], Inr [make_place query place_loc])
                   | Inr None \<Rightarrow>
                       logged (GeocodeManyCall query 5)
                         (case geocode_many sv query 5 of
                            Inl e \<Rightarrow> ([], Inl e)
                          | Inr None \<Rightarrow> ([], Inr [])
                          | Inr (Some []) \<Rightarrow> ([], Inr [])
                          | Inr (Some (c # cs)) \<Rightarrow>
                              (case scan_candidates sv city_coords radius (c # cs) of
                                 (t, Inl e) \<Rightarrow> (t, Inl e)
                               | (t, Inr None) \<Rightarrow> (t, Inr [])
                               | (t, Inr (Some place_loc)) \<Rightarrow>
                                   (t, Inr [make_place query place_loc]))))))"

text \<open>Lines 54, 110-112: \<^verbatim>\<open>except Exception\<close> turns every exception into the empty list.\<close>

definition query_places_nominatim ::
  "services \<Rightarrow> string \<Rightarrow> string \<Rightarrow> call list \<times> (error + place list)"
where
  "query_places_nominatim sv query location_name =
     (case query_places_try sv query location_name of
        (t, Inl e) \<Rightarrow> (t, Inr [])
      | (t, Inr places) \<Rightarrow> (t, Inr places))"

section \<open>Agent nodes\<close>

text \<open>What a node returns: a dictionary with the one key it writes.\<close>

datatype node_output =
    Keywords "string list"
  | SearchResults "place list"
  | ItineraryDraft string
  | UserFeedback "string option"

text \<open>Line 158.\<close>

definition target_count :: "int \<Rightarrow> int" where
  "target_count days = max 10 (days * 4)"

definition vibe_prompt_of :: "TravelGraphState \<Rightarrow> vibe_prompt" where
  "vibe_prompt_of state =
     \<lparr>vp_destination = destination state, vp_duration_days = duration_days state,
      vp_vibe = vibe state, vp_avoid = places_to_avoid state,
      vp_target_count = target_count (duration_days state)\<rparr>"

text \<open>Lines 152-178.\<close>

definition vibe_interpreter_agent :: "services \<Rightarrow> TravelGraphState \<Rightarrow> error + node_output" where
  "vibe_interpreter_agent sv state =
     (case llm_hero_structured sv (vibe_prompt_of state) of
        Inl e \<Rightarrow> Inl e
      | Inr response_keywords \<Rightarrow> Inr (Keywords response_keywords))"

text \<open>
  Line 200: invoking the tool with the argument dictionary of a tool call. The two
  parameters are looked up by name; a dictionary without one of them is rejected
  before the function body runs.
\<close>

definition invoke_query_places :: "services \<Rightarrow> (string \<times> string) list \<Rightarrow> error + place list" where
  "invoke_query_places sv args =
     (case (map_of args ''query'', map_of args ''location_name'') of
        (Some query, Some location_name) \<Rightarrow> snd (query_places_nominatim sv query location_name)
      | _ \<Rightarrow> Inl ToolArgsError)"

text \<open>
  Lines 196-202: the loop over the tool calls, extending \<open>all_places\<close>. An empty list of
  tool calls skips the loop, which is what the loop does on it; the tool's output is
  always a list, so the \<^verbatim>\<open>isinstance\<close> test always holds.
\<close>

fun collect_places :: "services \<Rightarrow> tool_call list \<Rightarrow> place list \<Rightarrow> error + place list" where
  "collect_places sv [] all_places = Inr all_places"
| "collect_places sv (tc # tcs) all_places =
     (if tc_name tc = ''query_places_nominatim'' then
        (case invoke_query_places sv (tc_args tc) of
           Inl e \<Rightarrow> Inl e
         | Inr tool_output \<Rightarrow> collect_places sv tcs (all_places @ tool_output))
      else collect_places sv tcs all_places)"

text \<open>Lines 205-210: the deduplication loop, with its \<open>seen\<close> set and result list.\<close>

fun dedup_places :: "string list \<Rightarrow> place list \<Rightarrow> string set \<Rightarrow> place list \<Rightarrow> place list" where
  "dedup_places avoid [] seen final_places = final_places"
| "dedup_places avoid (p # ps) seen final_places =
     (if name p \<notin> seen \<and> name p \<notin> set avoid
      then dedup_places avoid ps (insert (name p) seen) (final_places @ [p])
      else dedup_places avoid ps seen final_places)"

text \<open>Lines 183-186: \<^verbatim>\<open>in\<close> on strings is the substring test.\<close>

definition fix_location :: "string \<Rightarrow> string" where
  "fix_location dest =
     (if sublist ''London'' dest \<and> \<not> sublist ''UK'' dest then ''London, UK'' else dest)"

text \<open>Lines 180-212.\<close>

definition search_agent :: "services \<Rightarrow> TravelGraphState \<Rightarrow> error + node_output" where
  "search_agent sv state =
     (case keywords_st state of
        None \<Rightarrow> Inl KeyError
      | Some kws \<Rightarrow>
          (case llm_gemini_tools sv
                  \<lparr>sp_keywords = kws, sp_location_fixed = fix_location (destination state)\<rparr> of
             Inl e \<Rightarrow> Inl e
           | Inr tool_calls \<Rightarrow>
               (case collect_places sv tool_calls [] of
                  Inl e \<Rightarrow> Inl e
                | Inr all_places \<Rightarrow>
                    Inr (SearchResults (dedup_places (places_to_avoid state) all_places {} [])))))"

text \<open>Lines 214-237.\<close>

definition itinerary_agent :: "services \<Rightarrow> TravelGraphState \<Rightarrow> error + node_output" where
  "itinerary_agent sv state =
     (case search_results state of
        None \<Rightarrow> Inl KeyError
      | Some found \<Rightarrow>
          (case llm_hero sv
                  \<lparr>ip_destination = destination state, ip_duration_days = duration_days state,
                   ip_vibe = vibe state, ip_search_results = found\<rparr> of
             Inl e \<Rightarrow> Inl e
           | Inr content \<Rightarrow> Inr (ItineraryDraft content)))"

text \<open>Lines 241-242.\<close>

definition await_feedback :: "TravelGraphState \<Rightarrow> node_output" where
  "await_feedback state = UserFeedback None"

section \<open>Workflow graph\<close>

text \<open>
  Python truthiness of an \<^verbatim>\<open>Optional[str]\<close>, as tested by \<^verbatim>\<open>if x:\<close>: neither
  \<^verbatim>\<open>None\<close> nor the empty string.
\<close>

definition truthy :: "string option \<Rightarrow> bool" where
  "truthy x = (case x of None \<Rightarrow> False | Some s \<Rightarrow> s \<noteq> [])"

text \<open>The nodes added in lines 251-254. Where the graph goes next is a node or the end marker.\<close>

datatype node = VibeInterpreter | SearchAgent | ItineraryAgent | AwaitFeedback

abbreviation END :: "node option" where
  "END \<equiv> None"

text \<open>Lines 244-248.\<close>

definition check_feedback :: "TravelGraphState \<Rightarrow> node option" where
  "check_feedback state = (if truthy (user_feedback state) then Some VibeInterpreter else END)"

text \<open>
  Merging a node's returned dictionary into a state: the key it holds is replaced
  (\<^verbatim>\<open>dict.update\<close> in lines 289 and 304, and the graph's own state update).
\<close>

fun update_state :: "TravelGraphState \<Rightarrow> node_output \<Rightarrow> TravelGraphState" where
  "update_state state (Keywords kws) = state\<lparr>keywords_st := Some kws\<rparr>"
| "update_state state (SearchResults found) = state\<lparr>search_results := Some found\<rparr>"
| "update_state state (ItineraryDraft text) = state\<lparr>itinerary_draft := Some text\<rparr>"
| "update_state state (UserFeedback fb) = state\<lparr>user_feedback := fb\<rparr>"

text \<open>Lines 251-254: the function behind each node.\<close>

fun run_node :: "services \<Rightarrow> node \<Rightarrow> TravelGraphState \<Rightarrow> error + node_output" where
  "run_node sv VibeInterpreter state = vibe_interpreter_agent sv state"
| "run_node sv SearchAgent state = search_agent sv state"
| "run_node sv ItineraryAgent state = itinerary_agent sv state"
| "run_node sv AwaitFeedback state = Inr (await_feedback state)"

text \<open>
  Lines 257-262: the edges. The conditional edge out of \<^verbatim>\<open>await_feedback\<close> calls
  \<open>check_feedback\<close> on the state that already holds the node's update.
\<close>

fun next_node :: "node \<Rightarrow> TravelGraphState \<Rightarrow> node option" where
  "next_node VibeInterpreter state = Some SearchAgent"
| "next_node SearchAgent state = Some ItineraryAgent"
| "next_node ItineraryAgent state = Some AwaitFeedback"
| "next_node AwaitFeedback state = check_feedback state"

text \<open>
  The compiled graph, streaming one event \<^verbatim>\<open>{node_name: node_output}\<close> per executed node.
  A node that raises ends the run with its exception. The graph has a cycle, so the run
  is bounded by a step limit, as in the graph library, which raises when it is used up.
\<close>

primrec stream_from ::
  "nat \<Rightarrow> services \<Rightarrow> node option \<Rightarrow> TravelGraphState \<Rightarrow> error + (node \<times> node_output) list"
where
  "stream_from 0 sv next state =
     (case next of None \<Rightarrow> Inr [] | Some nd \<Rightarrow> Inl GraphRecursionError)"
| "stream_from (Suc limit) sv next state =
     (case next of
        None \<Rightarrow> Inr []
      | Some nd \<Rightarrow>
          (case run_node sv nd state of
             Inl e \<Rightarrow> Inl e
           | Inr node_output \<Rightarrow>
               (let state' = update_state state node_output in
                (case stream_from limit sv (next_node nd state') state' of
                   Inl e \<Rightarrow> Inl e
                 | Inr events \<Rightarrow> Inr ((nd, node_output) # events)))))"

text \<open>The graph library's default step limit.\<close>

definition recursion_limit :: nat where
  "recursion_limit = 25"

text \<open>Lines 256, 264: \<^verbatim>\<open>app.stream(input)\<close> starts at the entry point.\<close>

definition app_stream :: "services \<Rightarrow> TravelGraphState \<Rightarrow> error + (node \<times> node_output) list" where
  "app_stream sv input = stream_from recursion_limit sv (Some VibeInterpreter) input"

section \<open>The two operations\<close>

record PlanRequest =
  req_destination :: string
  req_duration_days :: int
  req_vibe :: string
  req_places_to_avoid :: "string list"

record ResumeRequest =
  current_state :: TravelGraphState
  req_user_feedback :: string
  place_to_avoid :: "string option"

record plan_response =
  resp_itinerary_draft :: "string option"
  resp_current_state :: TravelGraphState

text \<open>Lines 286-289 and 301-304: folding the streamed events into \<open>final_state\<close>.\<close>

definition apply_events :: "TravelGraphState \<Rightarrow> (node \<times> node_output) list \<Rightarrow> TravelGraphState" where
  "apply_events final_state events =
     foldl (\<lambda>fs (node_name, node_output). update_state fs node_output) final_state events"

text \<open>
  Lines 282-283: the request's fields and the start marker; the keys of the three agents
  are not in the dictionary yet.
\<close>

definition initial_input_of :: "PlanRequest \<Rightarrow> TravelGraphState" where
  "initial_input_of request =
     \<lparr>destination = req_destination request, duration_days = req_duration_days request,
      vibe = req_vibe request, user_feedback = Some ''Start'',
      places_to_avoid = req_places_to_avoid request,
      keywords_st = None, search_results = None, itinerary_draft = None\<rparr>"

text \<open>Lines 280-291.\<close>

definition start_plan :: "services \<Rightarrow> PlanRequest \<Rightarrow> error + plan_response" where
  "start_plan sv request =
     (let initial_input = initial_input_of request
      in case app_stream sv initial_input of
           Inl e \<Rightarrow> Inl e
         | Inr events \<Rightarrow>
             (let final_state = apply_events initial_input events in
              Inr \<lparr>resp_itinerary_draft = itinerary_draft final_state,
                   resp_current_state = final_state\<rparr>))"

text \<open>
  Lines 295-298: the state the resumed run starts from. \<^verbatim>\<open>if request.place_to_avoid:\<close>
  holds for a string that is neither \<^verbatim>\<open>None\<close> nor empty.
\<close>

definition resume_state_of :: "ResumeRequest \<Rightarrow> TravelGraphState" where
  "resume_state_of request =
     (let resume_state = (current_state request)\<lparr>user_feedback := Some (req_user_feedback request)\<rparr>
      in case place_to_avoid request of
           None \<Rightarrow> resume_state
         | Some p \<Rightarrow>
             if p \<noteq> [] then resume_state\<lparr>places_to_avoid := places_to_avoid resume_state @ [p]\<rparr>
             else resume_state)"

text \<open>Lines 293-306.\<close>

definition resume_plan :: "services \<Rightarrow> ResumeRequest \<Rightarrow> error + plan_response" where
  "resume_plan sv request =
     (let resume_state = resume_state_of request
      in case app_stream sv resume_state of
           Inl e \<Rightarrow> Inl e
         | Inr events \<Rightarrow>
             (let final_state = apply_events resume_state events in
              Inr \<lparr>resp_itinerary_draft = itinerary_draft final_state,
                   resp_current_state = final_state\<rparr>))"

text \<open>
  \<^verbatim>\<open>frontend.py\<close>, lines 121-140: the caller keeps the \<open>current_state\<close> of the last
  successful response and sends it back with each new feedback; a failed request leaves
  the kept state as it was.
\<close>

fun resume_sequence ::
  "services \<Rightarrow> TravelGraphState \<Rightarrow> (string \<times> string option) list \<Rightarrow> TravelGraphState"
where
  "resume_sequence sv state [] = state"
| "resume_sequence sv state ((feedback_text, avoid_new) # rest) =
     (case resume_plan sv \<lparr>current_state = state, req_user_feedback = feedback_text,
                            place_to_avoid = avoid_new\<rparr> of
        Inl e \<Rightarrow> resume_sequence sv state rest
      | Inr response \<Rightarrow> resume_sequence sv (resp_current_state response) rest)"

section \<open>Example inputs\<close>

text \<open>
  A geocoder that finds every query (so every strict search succeeds), a keyword
  generator that repeats a keyword, and a tool-invoking generator that asks for each
  keyword once, in order.
\<close>

definition demo_location :: "string \<Rightarrow> location" where
  "demo_location a =
     \<lparr>latitude = 35, longitude = 135, loc_address = a, raw_importance = Some 0.9\<rparr>"

definition demo_tool_call :: "string \<Rightarrow> string \<Rightarrow> tool_call" where
  "demo_tool_call loc kw =
     \<lparr>tc_name = ''query_places_nominatim'',
      tc_args = [(''query'', kw), (''location_name'', loc)]\<rparr>"

definition demo_services :: services where
  "demo_services =
     \<lparr>geocode = (\<lambda>q. Inr (Some (demo_location q))),
      geocode_many = (\<lambda>q n. Inr None),
      geodesic_km = (\<lambda>a b. Inr 0),
      llm_hero_structured = (\<lambda>p. Inr [''Temple'', ''Garden'', ''Temple'', ''Market'']),
      llm_gemini_tools = (\<lambda>p. Inr (map (demo_tool_call (sp_location_fixed p)) (sp_keywords p))),
      llm_hero = (\<lambda>p. Inr ''Day 1'')\<rparr>"

definition demo_state :: TravelGraphState where
  "demo_state =
     \<lparr>destination = ''Kyoto'', duration_days = 3, vibe = ''zen'', user_feedback = Some ''Start'',
      places_to_avoid = [''Garden''],
      keywords_st = Some [''Temple'', ''Garden'', ''Temple'', ''Market''],
      search_results = None, itinerary_draft = None\<rparr>"

definition demo_request :: PlanRequest where
  "demo_request =
     \<lparr>req_destination = ''Kyoto'', req_duration_days = 3, req_vibe = ''zen'',
      req_places_to_avoid = [''Garden'']\<rparr>"

definition demo_final_state :: TravelGraphState where
  "demo_final_state =
     \<lparr>destination = ''Kyoto'', duration_days = 3, vibe = ''zen'', user_feedback = None,
      places_to_avoid = [''Garden''],
      keywords_st = Some [''Temple'', ''Garden'', ''Temple'', ''Market''],
      search_results = Some
        [make_place ''Temple'' (demo_location ''Temple, Kyoto''),
         make_place ''Market'' (demo_location ''Market, Kyoto'')],
      itinerary_draft = Some ''Day 1''\<rparr>"

definition demo_resume :: ResumeRequest where
  "demo_resume =
     \<lparr>current_state = demo_final_state, req_user_feedback = ''fewer temples'',
      place_to_avoid = Some ''Temple''\<rparr>"

text \<open>
  A geocoder that knows the anchor city \<open>Bath\<close> with a given importance and nothing
  else by strict search, and whose global search returns one candidate, 45 km away.
\<close>

definition far_candidate :: location where
  "far_candidate =
     \<lparr>latitude = 51, longitude = -1, loc_address = ''Roman Villa, Wiltshire'',
      raw_importance = None\<rparr>"

definition anchor_city :: "real \<Rightarrow> location" where
  "anchor_city imp =
     \<lparr>latitude = 51, longitude = -2, loc_address = ''Bath, Somerset'',
      raw_importance = Some imp\<rparr>"

definition fallback_services :: "real \<Rightarrow> services" where
  "fallback_services imp =
     \<lparr>geocode = (\<lambda>q. if q = ''Bath'' then Inr (Some (anchor_city imp)) else Inr None),
      geocode_many = (\<lambda>q n. Inr (Some [far_candidate])),
      geodesic_km = (\<lambda>a b. Inr 45),
      llm_hero_structured = (\<lambda>p. Inl GeneratorError),
      llm_gemini_tools = (\<lambda>p. Inl GeneratorError),
      llm_hero = (\<lambda>p. Inl GeneratorError)\<rparr>"

text \<open>Services that all raise.\<close>

definition failing_services :: services where
  "failing_services =
     \<lparr>geocode = (\<lambda>q. Inl GeocoderError),
      geocode_many = (\<lambda>q n. Inl GeocoderError),
      geodesic_km = (\<lambda>a b. Inl DistanceError),
      llm_hero_structured = (\<lambda>p. Inl GeneratorError),
      llm_gemini_tools = (\<lambda>p. Inl GeneratorError),
      llm_hero = (\<lambda>p. Inl GeneratorError)\<rparr>"

definition demo_found :: "place list" where
  "demo_found =
     [make_place ''Temple'' (demo_location ''Temple, Kyoto''),
      make_place ''Market'' (demo_location ''Market, Kyoto'')]"

definition demo_resumed_state :: TravelGraphState where
  "demo_resumed_state =
     \<lparr>destination = ''Kyoto'', duration_days = 3, vibe = ''zen'', user_feedback = None,
      places_to_avoid = [''Garden'', ''Temple''],
      keywords_st = Some [''Temple'', ''Garden'', ''Temple'', ''Market''],
      search_results = Some [make_place ''Market'' (demo_location ''Market, Kyoto'')],
      itinerary_draft = Some ''Day 1''\<rparr>"

section \<open>Properties of the Place Search Orchestrator\<close>

lemma dedup_places_acc:
  "dedup_places avoid ps seen final = final @ dedup_places avoid ps seen []"
proof (induction ps arbitrary: seen final)
  case Nil
  show ?case by simp
next
  case (Cons p ps)
  show ?case
    using Cons.IH [of "insert (name p) seen" "final @ [p]"]
      Cons.IH [of "insert (name p) seen" "[p]"] Cons.IH [of seen final]
    by simp
qed

lemma dedup_places_names:
  "name ` set (dedup_places avoid ps seen []) = name ` set ps - seen - set avoid"
proof (induction ps arbitrary: seen)
  case Nil
  show ?case by simp
next
  case (Cons p ps)
  show ?case
    using Cons.IH [of "insert (name p) seen"] Cons.IH [of seen]
      dedup_places_acc [of avoid ps "insert (name p) seen" "[p]"]
    by auto
qed

lemma dedup_places_distinct:
  "distinct (map name (dedup_places avoid ps seen []))"
proof (induction ps arbitrary: seen)
  case Nil
  show ?case by simp
next
  case (Cons p ps)
  show ?case
    using Cons.IH [of "insert (name p) seen"] Cons.IH [of seen]
      dedup_places_acc [of avoid ps "insert (name p) seen" "[p]"]
      dedup_places_names [of avoid ps "insert (name p) seen"]
    by auto
qed

lemma dedup_places_subseq:
  "subseq (dedup_places avoid ps seen []) ps"
proof (induction ps arbitrary: seen)
  case Nil
  show ?case by simp
next
  case (Cons p ps)
  show ?case
    using Cons.IH [of "insert (name p) seen"] Cons.IH [of seen]
      dedup_places_acc [of avoid ps "insert (name p) seen" "[p]"]
    by auto
qed

lemma dedup_places_first:
  "p \<in> set (dedup_places avoid ps seen []) \<Longrightarrow> find (\<lambda>q. name q = name p) ps = Some p"
proof (induction ps arbitrary: seen)
  case Nil
  then show ?case by simp
next
  case (Cons a ps)
  show ?case
  proof (cases "name a \<notin> seen \<and> name a \<notin> set avoid")
    case True
    then have "p = a \<or> p \<in> set (dedup_places avoid ps (insert (name a) seen) [])"
      using Cons.prems dedup_places_acc [of avoid ps "insert (name a) seen" "[a]"] by auto
    then show ?thesis
    proof
      assume "p = a"
      then show ?thesis by simp
    next
      assume in_rest: "p \<in> set (dedup_places avoid ps (insert (name a) seen) [])"
      then have "name p \<in> name ` set ps - insert (name a) seen - set avoid"
        using dedup_places_names [of avoid ps "insert (name a) seen"] by blast
      then have "name a \<noteq> name p" by auto
      then show ?thesis using Cons.IH [OF in_rest] by simp
    qed
  next
    case False
    then have in_rest: "p \<in> set (dedup_places avoid ps seen [])"
      using Cons.prems by auto
    then have "name p \<in> name ` set ps - seen - set avoid"
      using dedup_places_names [of avoid ps seen] by blast
    then have "name a \<noteq> name p" using False by auto
    then show ?thesis using Cons.IH [OF in_rest] by simp
  qed
qed

text \<open>
  What \<open>search_agent\<close> does when it returns: the generator's tool calls are resolved
  into \<open>all_places\<close>, and the result is \<open>all_places\<close> run through the deduplication loop.
\<close>

lemma search_agent_Inr:
  assumes "search_agent sv state = Inr out"
  shows "\<exists>kws tool_calls all_places.
           keywords_st state = Some kws
         \<and> llm_gemini_tools sv \<lparr>sp_keywords = kws,
               sp_location_fixed = fix_location (destination state)\<rparr> = Inr tool_calls
         \<and> collect_places sv tool_calls [] = Inr all_places
         \<and> out = SearchResults (dedup_places (places_to_avoid state) all_places {} [])"
  using assms by (auto simp: search_agent_def split: option.splits sum.splits)

lemma demo_query_places:
  "query_places_nominatim demo_services q l =
     ([GeocodeCall l, GeocodeCall (q @ '', '' @ l)],
      Inr [make_place q (demo_location (q @ '', '' @ l))])"
  by (simp add: query_places_nominatim_def query_places_try_def demo_services_def
      logged_def Let_def)

lemma demo_search_agent_any:
  assumes "destination state = ''Kyoto''"
    "keywords_st state = Some [''Temple'', ''Garden'', ''Temple'', ''Market'']"
  shows "search_agent demo_services state =
     Inr (SearchResults (dedup_places (places_to_avoid state)
       [make_place ''Temple'' (demo_location ''Temple, Kyoto''),
        make_place ''Garden'' (demo_location ''Garden, Kyoto''),
        make_place ''Temple'' (demo_location ''Temple, Kyoto''),
        make_place ''Market'' (demo_location ''Market, Kyoto'')] {} []))"
proof -
  have fl: "fix_location ''Kyoto'' = ''Kyoto''"
    by (simp add: fix_location_def sublist_Cons_right)
  have tc: "llm_gemini_tools demo_services p =
      Inr (map (demo_tool_call (sp_location_fixed p)) (sp_keywords p))" for p
    by (simp add: demo_services_def)
  have inv: "invoke_query_places demo_services (tc_args (demo_tool_call l k)) =
      Inr [make_place k (demo_location (k @ '', '' @ l))]" for l k
    by (simp add: invoke_query_places_def demo_tool_call_def demo_query_places)
  have nm: "tc_name (demo_tool_call l k) = ''query_places_nominatim''" for l k
    by (simp add: demo_tool_call_def)
  show ?thesis
    by (simp add: search_agent_def assms fl tc inv nm)
qed

lemma demo_search_agent:
  "search_agent demo_services demo_state = Inr (SearchResults demo_found)"
  by (subst demo_search_agent_any) (simp_all add: demo_state_def demo_found_def make_place_def)

text \<open>
  Claim C3. Whenever the Place Search Orchestrator returns, with \<open>all_places\<close> the places
  collected from the resolver calls: no two returned places have the same name; no
  returned place has a name in \<open>places_to_avoid\<close>; the returned list is a subsequence of
  \<open>all_places\<close> (first-seen order is kept); every returned place is the first place of
  \<open>all_places\<close> with its name (the first occurrence wins); and every name of
  \<open>all_places\<close> that is not to be avoided is returned.
\<close>

theorem search_agent_dedup_filter:
  assumes "search_agent sv state = Inr out"
  shows "\<exists>kws tool_calls all_places found.
           keywords_st state = Some kws
         \<and> llm_gemini_tools sv \<lparr>sp_keywords = kws,
               sp_location_fixed = fix_location (destination state)\<rparr> = Inr tool_calls
         \<and> collect_places sv tool_calls [] = Inr all_places
         \<and> out = SearchResults found
         \<and> distinct (map name found)
         \<and> (\<forall>p \<in> set found. name p \<notin> set (places_to_avoid state))
         \<and> subseq found all_places
         \<and> (\<forall>p \<in> set found. find (\<lambda>q. name q = name p) all_places = Some p)
         \<and> name ` set found = name ` set all_places - set (places_to_avoid state)"
proof -
  from search_agent_Inr [OF assms] obtain kws tool_calls all_places where
    k: "keywords_st state = Some kws" and
    t: "llm_gemini_tools sv \<lparr>sp_keywords = kws,
          sp_location_fixed = fix_location (destination state)\<rparr> = Inr tool_calls" and
    c: "collect_places sv tool_calls [] = Inr all_places" and
    o: "out = SearchResults (dedup_places (places_to_avoid state) all_places {} [])"
    by blast
  let ?found = "dedup_places (places_to_avoid state) all_places {} []"
  have names: "name ` set ?found = name ` set all_places - set (places_to_avoid state)"
    using dedup_places_names [of "places_to_avoid state" all_places "{}"] by simp
  have avoid: "\<forall>p \<in> set ?found. name p \<notin> set (places_to_avoid state)"
    using names by blast
  have first: "\<forall>p \<in> set ?found. find (\<lambda>q. name q = name p) all_places = Some p"
    using dedup_places_first by blast
  show ?thesis
  proof (intro exI conjI)
    show "keywords_st state = Some kws" by (rule k)
    show "llm_gemini_tools sv \<lparr>sp_keywords = kws,
        sp_location_fixed = fix_location (destination state)\<rparr> = Inr tool_calls" by (rule t)
    show "collect_places sv tool_calls [] = Inr all_places" by (rule c)
    show "out = SearchResults ?found" by (rule o)
    show "distinct (map name ?found)" by (rule dedup_places_distinct)
    show "\<forall>p \<in> set ?found. name p \<notin> set (places_to_avoid state)" by (rule avoid)
    show "subseq ?found all_places" by (rule dedup_places_subseq)
    show "\<forall>p \<in> set ?found. find (\<lambda>q. name q = name p) all_places = Some p" by (rule first)
    show "name ` set ?found = name ` set all_places - set (places_to_avoid state)"
      by (rule names)
  qed
qed

theorem search_agent_dedup_filter_witness:
  "search_agent demo_services demo_state = Inr (SearchResults demo_found)
   \<and> map name demo_found = [''Temple'', ''Market'']
   \<and> (\<exists>kws tool_calls all_places found.
           keywords_st demo_state = Some kws
         \<and> llm_gemini_tools demo_services \<lparr>sp_keywords = kws,
               sp_location_fixed = fix_location (destination demo_state)\<rparr> = Inr tool_calls
         \<and> collect_places demo_services tool_calls [] = Inr all_places
         \<and> SearchResults demo_found = SearchResults found
         \<and> distinct (map name found)
         \<and> (\<forall>p \<in> set found. name p \<notin> set (places_to_avoid demo_state))
         \<and> subseq found all_places
         \<and> (\<forall>p \<in> set found. find (\<lambda>q. name q = name p) all_places = Some p)
         \<and> name ` set found = name ` set all_places - set (places_to_avoid demo_state))"
proof (intro conjI)
  show "search_agent demo_services demo_state = Inr (SearchResults demo_found)"
    by (rule demo_search_agent)
  show "map name demo_found = [''Temple'', ''Market'']"
    by (simp add: demo_found_def make_place_def)
qed (rule search_agent_dedup_filter [OF demo_search_agent])

section \<open>Properties of the Geolocation Resolver\<close>

lemma scan_candidates_prefix:
  "prefix (fst (scan_candidates sv cc r cs)) (map (\<lambda>c. GeodesicCall cc (coords_of c)) cs)"
proof (induction cs)
  case Nil
  show ?case by simp
next
  case (Cons c cs)
  then show ?case by (simp add: logged_def Let_def split: sum.splits)
qed

lemma scan_candidates_find:
  assumes "\<forall>c \<in> set cs. geodesic_km sv cc (coords_of c) = Inr (d c)"
  shows "snd (scan_candidates sv cc r cs) = Inr (find (\<lambda>c. d c \<le> r) cs)"
  using assms by (induction cs) (simp_all add: logged_def Let_def)

lemma scan_candidates_calls:
  "c \<in> set (fst (scan_candidates sv cc r cs)) \<Longrightarrow> is_geodesic_call c"
  using set_mono_prefix [OF scan_candidates_prefix [of sv cc r cs]] by auto

lemma query_places_try_city_missing:
  "geocode sv l = Inr None \<Longrightarrow> query_places_try sv q l = ([GeocodeCall l], Inr [])"
  by (simp add: query_places_try_def logged_def)

lemma query_places_try_strict:
  assumes "geocode sv l = Inr (Some city_loc)" "geocode sv (q @ '', '' @ l) = Inr (Some place_loc)"
  shows "query_places_try sv q l =
           ([GeocodeCall l, GeocodeCall (q @ '', '' @ l)], Inr [make_place q place_loc])"
  using assms by (simp add: query_places_try_def logged_def Let_def)

lemma query_places_try_fallback:
  assumes "geocode sv l = Inr (Some city_loc)" "geocode sv (q @ '', '' @ l) = Inr None"
    "geocode_many sv q 5 = Inr (Some cands)"
  shows "query_places_try sv q l =
           ([GeocodeCall l, GeocodeCall (q @ '', '' @ l), GeocodeManyCall q 5]
              @ fst (scan_candidates sv (coords_of city_loc) (radius_limit (importance_of city_loc)) cands),
            (case snd (scan_candidates sv (coords_of city_loc) (radius_limit (importance_of city_loc)) cands) of
               Inl e \<Rightarrow> Inl e
             | Inr None \<Rightarrow> Inr []
             | Inr (Some place_loc) \<Rightarrow> Inr [make_place q place_loc]))"
  using assms
  by (cases cands)
     (auto simp: query_places_try_def logged_def Let_def split: prod.splits sum.splits option.splits)

lemma query_places_nominatim_snd:
  "snd (query_places_nominatim sv q l) =
     (case snd (query_places_try sv q l) of Inl e \<Rightarrow> Inr [] | Inr places \<Rightarrow> Inr places)"
  by (simp add: query_places_nominatim_def split: prod.splits sum.splits)

lemma query_places_nominatim_fst:
  "fst (query_places_nominatim sv q l) = fst (query_places_try sv q l)"
  by (simp add: query_places_nominatim_def split: prod.splits sum.splits)

lemma query_places_try_shape:
  "snd (query_places_try sv q l) = Inr places \<Longrightarrow> length places \<le> 1 \<and> (\<forall>p \<in> set places. name p = q)"
  by (auto simp: query_places_try_def logged_def Let_def make_place_def
      split: prod.splits sum.splits option.splits list.splits)

lemma scan_candidates_trace_take:
  "\<exists>n. n \<le> length cs \<and>
     fst (scan_candidates sv cc r cs) = map (\<lambda>c. GeodesicCall cc (coords_of c)) (take n cs)"
proof -
  from scan_candidates_prefix [of sv cc r cs] obtain zs where
    "map (\<lambda>c. GeodesicCall cc (coords_of c)) cs = fst (scan_candidates sv cc r cs) @ zs"
    by (auto simp: prefix_def)
  then have "fst (scan_candidates sv cc r cs) =
      take (length (fst (scan_candidates sv cc r cs))) (map (\<lambda>c. GeodesicCall cc (coords_of c)) cs)"
    by simp
  moreover have "length (fst (scan_candidates sv cc r cs)) \<le> length cs"
    using prefix_length_le [OF scan_candidates_prefix [of sv cc r cs]] by simp
  ultimately show ?thesis by (metis take_map)
qed

lemma scan_candidates_skip:
  assumes "\<forall>c \<in> set pre. \<exists>dk. geodesic_km sv cc (coords_of c) = Inr dk \<and> \<not> dk \<le> r"
  shows "snd (scan_candidates sv cc r (pre @ rest)) = snd (scan_candidates sv cc r rest)"
  using assms by (induction pre) (auto simp: logged_def Let_def)

text \<open>
  Claim C5. The anchor is a megacity with radius 30 km when its importance is above 0.75,
  and a regional hub with radius 200 km otherwise. When the anchor is found, the strict
  search finds nothing and the global search (asked for at most 5 results, and returning
  no more than that) gives candidates whose distances can be computed, the resolver
  returns the first candidate, in the geocoder's order, whose distance is within the
  radius, and nothing when there is none; the distance is computed for an initial segment
  of the candidates, so for at most 5 of them. With importance 0.9 a sole candidate at
  45 km gives no result; with importance 0.4 it is returned.
\<close>

theorem fallback_first_within_radius:
  assumes city: "geocode sv l = Inr (Some city_loc)"
    and strict: "geocode sv (q @ '', '' @ l) = Inr None"
    and glob: "geocode_many sv q 5 = Inr (Some cands)"
    and limit: "length cands \<le> 5"
    and dists: "\<forall>c \<in> set cands. geodesic_km sv (coords_of city_loc) (coords_of c) = Inr (d c)"
  shows "snd (query_places_nominatim sv q l) =
           Inr (case find (\<lambda>c. d c \<le> (if importance_of city_loc > 0.75 then 30 else 200)) cands of
                  None \<Rightarrow> []
                | Some c \<Rightarrow> [make_place q c])
       \<and> (\<exists>n. n \<le> 5 \<and> n \<le> length cands \<and>
            fst (query_places_nominatim sv q l) =
              [GeocodeCall l, GeocodeCall (q @ '', '' @ l), GeocodeManyCall q 5]
                @ map (\<lambda>c. GeodesicCall (coords_of city_loc) (coords_of c)) (take n cands))
       \<and> (importance_of city_loc = 0.9 \<and> cands = [c0] \<and> d c0 = 45 \<longrightarrow>
            snd (query_places_nominatim sv q l) = Inr [])
       \<and> (importance_of city_loc = 0.4 \<and> cands = [c0] \<and> d c0 = 45 \<longrightarrow>
            snd (query_places_nominatim sv q l) = Inr [make_place q c0])"
proof -
  let ?cc = "coords_of city_loc"
  let ?r = "radius_limit (importance_of city_loc)"
  have try_eq: "query_places_try sv q l =
      ([GeocodeCall l, GeocodeCall (q @ '', '' @ l), GeocodeManyCall q 5]
         @ fst (scan_candidates sv ?cc ?r cands),
       (case snd (scan_candidates sv ?cc ?r cands) of
          Inl e \<Rightarrow> Inl e
        | Inr None \<Rightarrow> Inr []
        | Inr (Some place_loc) \<Rightarrow> Inr [make_place q place_loc]))"
    by (rule query_places_try_fallback [OF city strict glob])
  have scan: "snd (scan_candidates sv ?cc ?r cands) = Inr (find (\<lambda>c. d c \<le> ?r) cands)"
    by (rule scan_candidates_find [OF dists])
  have res: "snd (query_places_nominatim sv q l) =
      Inr (case find (\<lambda>c. d c \<le> ?r) cands of None \<Rightarrow> [] | Some c \<Rightarrow> [make_place q c])"
    by (simp add: query_places_nominatim_snd try_eq scan split: option.splits)
  have res': "snd (query_places_nominatim sv q l) =
      Inr (case find (\<lambda>c. d c \<le> (if importance_of city_loc > 0.75 then 30 else 200)) cands of
             None \<Rightarrow> [] | Some c \<Rightarrow> [make_place q c])"
    using res by (simp add: radius_limit_def)
  from scan_candidates_trace_take [of cands sv ?cc ?r] obtain n where
    n: "n \<le> length cands"
      "fst (scan_candidates sv ?cc ?r cands) = map (\<lambda>c. GeodesicCall ?cc (coords_of c)) (take n cands)"
    by blast
  have trace: "\<exists>n. n \<le> 5 \<and> n \<le> length cands \<and>
      fst (query_places_nominatim sv q l) =
        [GeocodeCall l, GeocodeCall (q @ '', '' @ l), GeocodeManyCall q 5]
          @ map (\<lambda>c. GeodesicCall ?cc (coords_of c)) (take n cands)"
  proof (intro exI conjI)
    show "n \<le> 5" using n(1) limit by simp
    show "n \<le> length cands" by (rule n(1))
    show "fst (query_places_nominatim sv q l) =
        [GeocodeCall l, GeocodeCall (q @ '', '' @ l), GeocodeManyCall q 5]
          @ map (\<lambda>c. GeodesicCall ?cc (coords_of c)) (take n cands)"
      by (simp add: query_places_nominatim_fst try_eq n(2))
  qed
  have mega: "importance_of city_loc = 0.9 \<and> cands = [c0] \<and> d c0 = 45 \<longrightarrow>
      snd (query_places_nominatim sv q l) = Inr []"
    using res by (simp add: radius_limit_def)
  have hub: "importance_of city_loc = 0.4 \<and> cands = [c0] \<and> d c0 = 45 \<longrightarrow>
      snd (query_places_nominatim sv q l) = Inr [make_place q c0]"
    using res by (simp add: radius_limit_def)
  show ?thesis using res' trace mega hub by (intro conjI)
qed

lemma fallback_services_simps:
  "geocode (fallback_services imp) ''Bath'' = Inr (Some (anchor_city imp))"
  "geocode (fallback_services imp) (''Roman Villa'' @ '', '' @ ''Bath'') = Inr None"
  "geocode_many (fallback_services imp) q n = Inr (Some [far_candidate])"
  "geodesic_km (fallback_services imp) a b = Inr 45"
  by (simp_all add: fallback_services_def)

theorem fallback_first_within_radius_witness:
  "snd (query_places_nominatim (fallback_services 0.9) ''Roman Villa'' ''Bath'') = Inr []
   \<and> snd (query_places_nominatim (fallback_services 0.4) ''Roman Villa'' ''Bath'') =
       Inr [make_place ''Roman Villa'' far_candidate]"
proof -
  have imp: "importance_of (anchor_city i) = i" for i
    by (simp add: importance_of_def anchor_city_def)
  have d: "\<forall>c \<in> set [far_candidate].
      geodesic_km (fallback_services i) (coords_of (anchor_city i)) (coords_of c) = Inr ((\<lambda>c. 45) c)" for i
    by (simp add: fallback_services_simps)
  have len: "length [far_candidate] \<le> 5" by simp
  note t = fallback_first_within_radius [OF fallback_services_simps(1) fallback_services_simps(2)
      fallback_services_simps(3) len d, of _ far_candidate]
  show ?thesis using t [of "0.9"] t [of "0.4"] by (simp add: imp)
qed

lemma query_places_try_city_error:
  "geocode sv l = Inl e \<Longrightarrow> query_places_try sv q l = ([GeocodeCall l], Inl e)"
  by (simp add: query_places_try_def logged_def)

lemma query_places_try_strict_error:
  assumes "geocode sv l = Inr (Some city_loc)" "geocode sv (q @ '', '' @ l) = Inl e"
  shows "query_places_try sv q l = ([GeocodeCall l, GeocodeCall (q @ '', '' @ l)], Inl e)"
  using assms by (simp add: query_places_try_def logged_def Let_def)

lemma query_places_try_global_error:
  assumes "geocode sv l = Inr (Some city_loc)" "geocode sv (q @ '', '' @ l) = Inr None"
    "geocode_many sv q 5 = Inl e"
  shows "query_places_try sv q l =
           ([GeocodeCall l, GeocodeCall (q @ '', '' @ l), GeocodeManyCall q 5], Inl e)"
  using assms by (simp add: query_places_try_def logged_def Let_def)

lemma query_places_try_global_none:
  assumes "geocode sv l = Inr (Some city_loc)" "geocode sv (q @ '', '' @ l) = Inr None"
    "geocode_many sv q 5 = Inr None"
  shows "query_places_try sv q l =
           ([GeocodeCall l, GeocodeCall (q @ '', '' @ l), GeocodeManyCall q 5], Inr [])"
  using assms by (simp add: query_places_try_def logged_def Let_def)

lemma query_places_try_fallback_only:
  assumes "c \<in> set (fst (query_places_try sv q l))" "is_fallback_call c"
  shows "(\<exists>city_loc. geocode sv l = Inr (Some city_loc)) \<and> geocode sv (q @ '', '' @ l) = Inr None"
proof (cases "geocode sv l")
  case (Inl e)
  then show ?thesis using assms query_places_try_city_error [OF Inl, of q] by auto
next
  case (Inr r)
  show ?thesis
  proof (cases r)
    case None
    then show ?thesis using assms Inr query_places_try_city_missing [of sv l q] by auto
  next
    case (Some city_loc)
    note city = Inr [unfolded Some]
    show ?thesis
    proof (cases "geocode sv (q @ '', '' @ l)")
      case (Inl e)
      then show ?thesis
        using assms query_places_try_strict_error [OF city Inl] by auto
    next
      case inr: (Inr r')
      show ?thesis
      proof (cases r')
        case None
        then show ?thesis using city inr by simp
      next
        case some: (Some place_loc)
        then show ?thesis
          using assms query_places_try_strict [OF city inr [unfolded some]] by auto
      qed
    qed
  qed
qed

text \<open>
  Claim C6. When the strict search for \<open>query, location_name\<close> returns a result, the
  resolver returns that result after exactly two geocoder calls: no global search is
  made and no distance is computed, whatever the distance function would say. A call of
  the fallback (global search or distance) is made only when the strict search returned
  nothing.
\<close>

theorem strict_match_short_circuits:
  "(geocode sv l = Inr (Some city_loc) \<and> geocode sv (q @ '', '' @ l) = Inr (Some place_loc) \<longrightarrow>
      query_places_nominatim sv q l =
        ([GeocodeCall l, GeocodeCall (q @ '', '' @ l)], Inr [make_place q place_loc]))
   \<and> ((\<exists>c \<in> set (fst (query_places_nominatim sv q l)). is_fallback_call c) \<longrightarrow>
        (\<exists>city_loc. geocode sv l = Inr (Some city_loc)) \<and> geocode sv (q @ '', '' @ l) = Inr None)"
proof (intro conjI impI)
  assume "geocode sv l = Inr (Some city_loc) \<and> geocode sv (q @ '', '' @ l) = Inr (Some place_loc)"
  then have "query_places_try sv q l =
      ([GeocodeCall l, GeocodeCall (q @ '', '' @ l)], Inr [make_place q place_loc])"
    using query_places_try_strict by blast
  then show "query_places_nominatim sv q l =
      ([GeocodeCall l, GeocodeCall (q @ '', '' @ l)], Inr [make_place q place_loc])"
    by (simp add: query_places_nominatim_def)
next
  assume "\<exists>c \<in> set (fst (query_places_nominatim sv q l)). is_fallback_call c"
  then obtain c where "c \<in> set (fst (query_places_try sv q l))" "is_fallback_call c"
    by (auto simp: query_places_nominatim_fst)
  then have r: "(\<exists>city_loc. geocode sv l = Inr (Some city_loc)) \<and> geocode sv (q @ '', '' @ l) = Inr None"
    by (rule query_places_try_fallback_only)
  from r show "\<exists>city_loc. geocode sv l = Inr (Some city_loc)" by blast
  from r show "geocode sv (q @ '', '' @ l) = Inr None" by blast
qed

theorem strict_match_short_circuits_witness:
  "query_places_nominatim demo_services ''Temple'' ''Kyoto'' =
     ([GeocodeCall ''Kyoto'', GeocodeCall ''Temple, Kyoto''],
      Inr [make_place ''Temple'' (demo_location ''Temple, Kyoto'')])
   \<and> (\<exists>c \<in> set (fst (query_places_nominatim (fallback_services 0.4) ''Roman Villa'' ''Bath'')).
         is_fallback_call c)
   \<and> geocode (fallback_services 0.4) ''Roman Villa, Bath'' = Inr None"
proof -
  have g: "geocode demo_services ''Kyoto'' = Inr (Some (demo_location ''Kyoto'')) \<and>
      geocode demo_services (''Temple'' @ '', '' @ ''Kyoto'') =
        Inr (Some (demo_location (''Temple'' @ '', '' @ ''Kyoto'')))"
    by (simp add: demo_services_def)
  note a = strict_match_short_circuits [of demo_services "''Kyoto''" "demo_location ''Kyoto''"
        "''Temple''" "demo_location (''Temple'' @ '', '' @ ''Kyoto'')", THEN conjunct1, THEN mp, OF g]
  have tr: "fst (query_places_nominatim (fallback_services 0.4) ''Roman Villa'' ''Bath'') =
      [GeocodeCall ''Bath'', GeocodeCall (''Roman Villa'' @ '', '' @ ''Bath''),
       GeocodeManyCall ''Roman Villa'' 5, GeodesicCall (coords_of (anchor_city 0.4)) (coords_of far_candidate)]"
    unfolding query_places_nominatim_fst
      query_places_try_fallback [OF fallback_services_simps(1) fallback_services_simps(2)
          fallback_services_simps(3)]
    by (simp add: logged_def fallback_services_simps(4))
  have b: "\<exists>c \<in> set (fst (query_places_nominatim (fallback_services 0.4) ''Roman Villa'' ''Bath'')).
         is_fallback_call c"
    unfolding tr by simp
  note c = strict_match_short_circuits [of "fallback_services 0.4" "''Bath''" "anchor_city 0.4"
        "''Roman Villa''" far_candidate, THEN conjunct2, THEN mp, OF b, THEN conjunct2]
  from a have a': "query_places_nominatim demo_services ''Temple'' ''Kyoto'' =
     ([GeocodeCall ''Kyoto'', GeocodeCall ''Temple, Kyoto''],
      Inr [make_place ''Temple'' (demo_location ''Temple, Kyoto'')])" by simp
  from c have c': "geocode (fallback_services 0.4) ''Roman Villa, Bath'' = Inr None" by simp
  show ?thesis using a' b c' by (intro conjI)
qed

lemma query_places_try_first_raises:
  assumes city: "geocode sv l = Inr (Some city_loc)"
    and strict: "geocode sv (q @ '', '' @ l) = Inr None"
    and glob: "geocode_many sv q 5 = Inr (Some (pre @ c # rest))"
    and far: "\<forall>c \<in> set pre. \<exists>dk. geodesic_km sv (coords_of city_loc) (coords_of c) = Inr dk
               \<and> \<not> dk \<le> radius_limit (importance_of city_loc)"
    and raise: "geodesic_km sv (coords_of city_loc) (coords_of c) = Inl e"
  shows "snd (query_places_try sv q l) = Inl e"
proof -
  have "snd (scan_candidates sv (coords_of city_loc) (radius_limit (importance_of city_loc))
      (pre @ c # rest)) = Inl e"
    using raise by (simp add: scan_candidates_skip [OF far] logged_def Let_def)
  then show ?thesis
    by (simp add: query_places_try_fallback [OF city strict glob])
qed

lemma query_places_try_all_far:
  assumes city: "geocode sv l = Inr (Some city_loc)"
    and strict: "geocode sv (q @ '', '' @ l) = Inr None"
    and glob: "geocode_many sv q 5 = Inr (Some cands)"
    and far: "\<forall>c \<in> set cands. \<exists>dk. geodesic_km sv (coords_of city_loc) (coords_of c) = Inr dk
               \<and> \<not> dk \<le> radius_limit (importance_of city_loc)"
  shows "snd (query_places_try sv q l) = Inr []"
proof -
  have "snd (scan_candidates sv (coords_of city_loc) (radius_limit (importance_of city_loc))
      (cands @ [])) = Inr None"
    by (simp only: scan_candidates_skip [OF far]) simp
  then show ?thesis
    by (simp add: query_places_try_fallback [OF city strict glob])
qed

text \<open>
  Claim C7. The resolver always returns a list and never an exception. It returns the
  empty list when the anchor city is not found; when neither the strict nor the global
  search returns anything; when no candidate of the global search is within the radius;
  and when a service call raises inside the \<^verbatim>\<open>try\<close> block, be it the anchor lookup,
  the strict search, the global search or a distance computation.
\<close>

theorem resolver_never_raises:
  "(\<exists>places. snd (query_places_nominatim sv q l) = Inr places)
   \<and> (geocode sv l = Inr None \<longrightarrow> snd (query_places_nominatim sv q l) = Inr [])
   \<and> (geocode sv l = Inr (Some city_loc) \<and> geocode sv (q @ '', '' @ l) = Inr None
        \<and> (geocode_many sv q 5 = Inr None \<or> geocode_many sv q 5 = Inr (Some []))
        \<longrightarrow> snd (query_places_nominatim sv q l) = Inr [])
   \<and> (geocode sv l = Inr (Some city_loc) \<and> geocode sv (q @ '', '' @ l) = Inr None
        \<and> geocode_many sv q 5 = Inr (Some cands)
        \<and> (\<forall>c \<in> set cands. \<exists>dk. geodesic_km sv (coords_of city_loc) (coords_of c) = Inr dk
               \<and> \<not> dk \<le> radius_limit (importance_of city_loc))
        \<longrightarrow> snd (query_places_nominatim sv q l) = Inr [])
   \<and> (snd (query_places_try sv q l) = Inl e \<longrightarrow> snd (query_places_nominatim sv q l) = Inr [])
   \<and> (geocode sv l = Inl e \<longrightarrow> snd (query_places_try sv q l) = Inl e)
   \<and> (geocode sv l = Inr (Some city_loc) \<and> geocode sv (q @ '', '' @ l) = Inl e
        \<longrightarrow> snd (query_places_try sv q l) = Inl e)
   \<and> (geocode sv l = Inr (Some city_loc) \<and> geocode sv (q @ '', '' @ l) = Inr None
        \<and> geocode_many sv q 5 = Inl e
        \<longrightarrow> snd (query_places_try sv q l) = Inl e)
   \<and> (geocode sv l = Inr (Some city_loc) \<and> geocode sv (q @ '', '' @ l) = Inr None
        \<and> geocode_many sv q 5 = Inr (Some (pre @ c # rest))
        \<and> (\<forall>c \<in> set pre. \<exists>dk. geodesic_km sv (coords_of city_loc) (coords_of c) = Inr dk
               \<and> \<not> dk \<le> radius_limit (importance_of city_loc))
        \<and> geodesic_km sv (coords_of city_loc) (coords_of c) = Inl e
        \<longrightarrow> snd (query_places_try sv q l) = Inl e)"
proof (intro conjI impI)
  show "\<exists>places. snd (query_places_nominatim sv q l) = Inr places"
    by (cases "snd (query_places_try sv q l)") (simp_all add: query_places_nominatim_snd)
next
  assume "geocode sv l = Inr None"
  then show "snd (query_places_nominatim sv q l) = Inr []"
    by (simp add: query_places_nominatim_snd query_places_try_city_missing)
next
  assume a: "geocode sv l = Inr (Some city_loc) \<and> geocode sv (q @ '', '' @ l) = Inr None
        \<and> (geocode_many sv q 5 = Inr None \<or> geocode_many sv q 5 = Inr (Some []))"
  then have "snd (query_places_try sv q l) = Inr []"
    using query_places_try_global_none [of sv l city_loc q]
      query_places_try_fallback [of sv l city_loc q "[]"] by auto
  then show "snd (query_places_nominatim sv q l) = Inr []"
    by (simp add: query_places_nominatim_snd)
next
  assume a: "geocode sv l = Inr (Some city_loc) \<and> geocode sv (q @ '', '' @ l) = Inr None
        \<and> geocode_many sv q 5 = Inr (Some cands)
        \<and> (\<forall>c \<in> set cands. \<exists>dk. geodesic_km sv (coords_of city_loc) (coords_of c) = Inr dk
               \<and> \<not> dk \<le> radius_limit (importance_of city_loc))"
  then have "snd (query_places_try sv q l) = Inr []"
    using query_places_try_all_far [of sv l city_loc q cands] by blast
  then show "snd (query_places_nominatim sv q l) = Inr []"
    by (simp add: query_places_nominatim_snd)
next
  assume "snd (query_places_try sv q l) = Inl e"
  then show "snd (query_places_nominatim sv q l) = Inr []"
    by (simp add: query_places_nominatim_snd)
next
  assume "geocode sv l = Inl e"
  then show "snd (query_places_try sv q l) = Inl e"
    by (simp add: query_places_try_city_error)
next
  assume "geocode sv l = Inr (Some city_loc) \<and> geocode sv (q @ '', '' @ l) = Inl e"
  then show "snd (query_places_try sv q l) = Inl e"
    using query_places_try_strict_error [of sv l city_loc q e] by simp
next
  assume "geocode sv l = Inr (Some city_loc) \<and> geocode sv (q @ '', '' @ l) = Inr None
        \<and> geocode_many sv q 5 = Inl e"
  then show "snd (query_places_try sv q l) = Inl e"
    using query_places_try_global_error [of sv l city_loc q e] by simp
next
  assume "geocode sv l = Inr (Some city_loc) \<and> geocode sv (q @ '', '' @ l) = Inr None
        \<and> geocode_many sv q 5 = Inr (Some (pre @ c # rest))
        \<and> (\<forall>c \<in> set pre. \<exists>dk. geodesic_km sv (coords_of city_loc) (coords_of c) = Inr dk
               \<and> \<not> dk \<le> radius_limit (importance_of city_loc))
        \<and> geodesic_km sv (coords_of city_loc) (coords_of c) = Inl e"
  then show "snd (query_places_try sv q l) = Inl e"
    using query_places_try_first_raises [of sv l city_loc q pre c rest e] by blast
qed

theorem resolver_never_raises_witness:
  "snd (query_places_try failing_services ''Temple'' ''Kyoto'') = Inl GeocoderError
   \<and> snd (query_places_nominatim failing_services ''Temple'' ''Kyoto'') = Inr []
   \<and> snd (query_places_nominatim (fallback_services 0.9) ''Roman Villa'' ''Bath'') = Inr []"
proof -
  note t = resolver_never_raises [where sv = failing_services and q = "''Temple''"
      and l = "''Kyoto''" and e = GeocoderError and city_loc = far_candidate and cands = "[]"
      and pre = "[]" and c = far_candidate and rest = "[]"]
  have g: "geocode failing_services ''Kyoto'' = Inl GeocoderError"
    by (simp add: failing_services_def)
  note raised = t [THEN conjunct2, THEN conjunct2, THEN conjunct2, THEN conjunct2, THEN conjunct2,
      THEN conjunct1, THEN mp, OF g]
  note absorbed = t [THEN conjunct2, THEN conjunct2, THEN conjunct2, THEN conjunct2,
      THEN conjunct1, THEN mp, OF raised]
  have far: "geocode (fallback_services 0.9) ''Bath'' = Inr (Some (anchor_city 0.9))
      \<and> geocode (fallback_services 0.9) (''Roman Villa'' @ '', '' @ ''Bath'') = Inr None
      \<and> geocode_many (fallback_services 0.9) ''Roman Villa'' 5 = Inr (Some [far_candidate])
      \<and> (\<forall>c \<in> set [far_candidate].
            \<exists>dk. geodesic_km (fallback_services 0.9) (coords_of (anchor_city 0.9)) (coords_of c) = Inr dk
               \<and> \<not> dk \<le> radius_limit (importance_of (anchor_city 0.9)))"
    by (simp add: fallback_services_def radius_limit_def importance_of_def anchor_city_def)
  note missed = resolver_never_raises [where sv = "fallback_services 0.9"
      and q = "''Roman Villa''" and l = "''Bath''" and city_loc = "anchor_city 0.9"
      and cands = "[far_candidate]" and e = GeocoderError
      and pre = "[]" and c = far_candidate and rest = "[]",
      THEN conjunct2, THEN conjunct2, THEN conjunct2, THEN conjunct1, THEN mp, OF far]
  show ?thesis using raised absorbed missed by (intro conjI)
qed

lemma query_places_nominatim_shape:
  "\<exists>places. snd (query_places_nominatim sv q l) = Inr places \<and> length places \<le> 1
     \<and> (\<forall>p \<in> set places. name p = q)"
proof (cases "snd (query_places_try sv q l)")
  case (Inl e)
  then show ?thesis by (simp add: query_places_nominatim_snd)
next
  case (Inr places)
  then show ?thesis
    using query_places_try_shape [OF Inr] by (simp add: query_places_nominatim_snd)
qed

lemma invoke_query_places_names:
  assumes "invoke_query_places sv args = Inr tool_output" "p \<in> set tool_output"
  shows "map_of args ''query'' = Some (name p)"
proof -
  from assms(1) obtain q l where
    q: "map_of args ''query'' = Some q" and
    r: "snd (query_places_nominatim sv q l) = Inr tool_output"
    by (auto simp: invoke_query_places_def split: option.splits)
  from query_places_nominatim_shape [of sv q l] r assms(2) have "name p = q" by auto
  then show ?thesis using q by simp
qed

lemma collect_places_names:
  assumes "collect_places sv tcs acc = Inr all_places" "p \<in> set all_places"
  shows "p \<in> set acc \<or>
         (\<exists>tc \<in> set tcs. tc_name tc = ''query_places_nominatim''
            \<and> map_of (tc_args tc) ''query'' = Some (name p))"
  using assms
proof (induction tcs arbitrary: acc)
  case Nil
  then show ?case by simp
next
  case (Cons tc tcs)
  show ?case
  proof (cases "tc_name tc = ''query_places_nominatim''")
    case False
    then have "collect_places sv tcs acc = Inr all_places" using Cons.prems(1) by simp
    from Cons.IH [OF this Cons.prems(2)] show ?thesis by auto
  next
    case True
    then obtain tool_output where
      inv: "invoke_query_places sv (tc_args tc) = Inr tool_output" and
      rest: "collect_places sv tcs (acc @ tool_output) = Inr all_places"
      using Cons.prems(1) by (auto split: sum.splits)
    from Cons.IH [OF rest Cons.prems(2)] consider
      "p \<in> set acc" | "p \<in> set tool_output" |
      "\<exists>tc \<in> set tcs. tc_name tc = ''query_places_nominatim''
            \<and> map_of (tc_args tc) ''query'' = Some (name p)"
      by auto
    then show ?thesis
    proof cases
      case 1
      then show ?thesis by simp
    next
      case 2
      from invoke_query_places_names [OF inv 2] True show ?thesis by simp
    next
      case 3
      then show ?thesis by auto
    qed
  qed
qed

text \<open>
  Claim C10. The resolver returns at most one place, and the name of that place is the
  query string it was called with, not anything the geocoder reported. Hence every place
  the Place Search Orchestrator returns is named by the \<open>query\<close> argument of one of the
  generator's tool calls: deduplication and the \<open>places_to_avoid\<close> filter compare these
  search terms.
\<close>

theorem resolver_names_are_queries:
  "(\<exists>places. snd (query_places_nominatim sv q l) = Inr places \<and> length places \<le> 1
      \<and> (\<forall>p \<in> set places. name p = q))
   \<and> (search_agent sv state = Inr (SearchResults found) \<longrightarrow>
        (\<exists>kws tool_calls.
            keywords_st state = Some kws
          \<and> llm_gemini_tools sv \<lparr>sp_keywords = kws,
                sp_location_fixed = fix_location (destination state)\<rparr> = Inr tool_calls
          \<and> (\<forall>p \<in> set found. \<exists>tc \<in> set tool_calls.
                tc_name tc = ''query_places_nominatim''
                \<and> map_of (tc_args tc) ''query'' = Some (name p))))"
proof (intro conjI impI)
  show "\<exists>places. snd (query_places_nominatim sv q l) = Inr places \<and> length places \<le> 1
      \<and> (\<forall>p \<in> set places. name p = q)"
    by (rule query_places_nominatim_shape)
next
  assume a: "search_agent sv state = Inr (SearchResults found)"
  from search_agent_Inr [OF a] obtain kws tool_calls all_places where
    k: "keywords_st state = Some kws" and
    t: "llm_gemini_tools sv \<lparr>sp_keywords = kws,
          sp_location_fixed = fix_location (destination state)\<rparr> = Inr tool_calls" and
    c: "collect_places sv tool_calls [] = Inr all_places" and
    f: "found = dedup_places (places_to_avoid state) all_places {} []"
    by auto
  have sub: "set found \<subseteq> set all_places"
    unfolding f using dedup_places_subseq [of "places_to_avoid state" all_places "{}"]
    by (auto dest: list_emb_set)
  have names: "\<forall>p \<in> set found. \<exists>tc \<in> set tool_calls.
      tc_name tc = ''query_places_nominatim'' \<and> map_of (tc_args tc) ''query'' = Some (name p)"
  proof
    fix p assume "p \<in> set found"
    then have "p \<in> set all_places" using sub by blast
    from collect_places_names [OF c this]
    show "\<exists>tc \<in> set tool_calls.
      tc_name tc = ''query_places_nominatim'' \<and> map_of (tc_args tc) ''query'' = Some (name p)"
      by simp
  qed
  show "\<exists>kws tool_calls.
            keywords_st state = Some kws
          \<and> llm_gemini_tools sv \<lparr>sp_keywords = kws,
                sp_location_fixed = fix_location (destination state)\<rparr> = Inr tool_calls
          \<and> (\<forall>p \<in> set found. \<exists>tc \<in> set tool_calls.
                tc_name tc = ''query_places_nominatim''
                \<and> map_of (tc_args tc) ''query'' = Some (name p))"
    using k t names by (intro exI conjI)
qed

theorem resolver_names_are_queries_witness:
  "(\<exists>places. snd (query_places_nominatim demo_services ''Temple'' ''Kyoto'') = Inr places
      \<and> length places \<le> 1 \<and> (\<forall>p \<in> set places. name p = ''Temple''))
   \<and> search_agent demo_services demo_state = Inr (SearchResults demo_found)
   \<and> map name demo_found = [''Temple'', ''Market'']
   \<and> map address demo_found = [''Temple, Kyoto'', ''Market, Kyoto'']
   \<and> (\<exists>kws tool_calls.
          keywords_st demo_state = Some kws
        \<and> llm_gemini_tools demo_services \<lparr>sp_keywords = kws,
              sp_location_fixed = fix_location (destination demo_state)\<rparr> = Inr tool_calls
        \<and> (\<forall>p \<in> set demo_found. \<exists>tc \<in> set tool_calls.
              tc_name tc = ''query_places_nominatim''
              \<and> map_of (tc_args tc) ''query'' = Some (name p)))"
proof -
  note t = resolver_names_are_queries [where sv = demo_services and q = "''Temple''"
      and l = "''Kyoto''" and state = demo_state and found = demo_found]
  have n: "map name demo_found = [''Temple'', ''Market'']"
    by (simp add: demo_found_def make_place_def)
  have a: "map address demo_found = [''Temple, Kyoto'', ''Market, Kyoto'']"
    by (simp add: demo_found_def make_place_def demo_location_def)
  show ?thesis
    using t [THEN conjunct1] demo_search_agent n a t [THEN conjunct2, THEN mp, OF demo_search_agent]
    by (intro conjI)
qed

text \<open>
  Claim C4. The target count is \<open>max 10 (duration_days * 4)\<close>: for 1 to 14 days it is 10
  up to two days and four per day from three days on (1 gives 10, 3 gives 12, 5 gives
  20), and for every positive duration it is at least four per day. The prompt sent to
  the generator carries this count, and the node returns the generator's list as it is,
  whatever its length; a failure of the generator is passed on.
\<close>

theorem keyword_target_count:
  "target_count d = max 10 (d * 4)
   \<and> (1 \<le> d \<and> d \<le> 14 \<longrightarrow>
        target_count d = (if d \<le> 2 then 10 else d * 4)
        \<and> 10 \<le> target_count d \<and> target_count d \<le> 56)
   \<and> (0 < d \<longrightarrow> target_count d = max 10 (d * 4) \<and> d * 4 \<le> target_count d)
   \<and> target_count 1 = 10 \<and> target_count 3 = 12 \<and> target_count 5 = 20
   \<and> vp_target_count (vibe_prompt_of state) = max 10 (duration_days state * 4)
   \<and> (llm_hero_structured sv (vibe_prompt_of state) = Inr response_keywords \<longrightarrow>
        vibe_interpreter_agent sv state = Inr (Keywords response_keywords))
   \<and> (llm_hero_structured sv (vibe_prompt_of state) = Inl e \<longrightarrow>
        vibe_interpreter_agent sv state = Inl e)"
  by (simp add: target_count_def vibe_prompt_of_def vibe_interpreter_agent_def)

theorem keyword_target_count_witness:
  "target_count 14 = 56
   \<and> vp_target_count (vibe_prompt_of demo_state) = 12
   \<and> vibe_interpreter_agent demo_services demo_state =
       Inr (Keywords [''Temple'', ''Garden'', ''Temple'', ''Market''])"
proof -
  note t = keyword_target_count [where d = 14 and state = demo_state and sv = demo_services
      and response_keywords = "[''Temple'', ''Garden'', ''Temple'', ''Market'']"
      and e = GeneratorError]
  have r: "(1::int) \<le> 14 \<and> (14::int) \<le> 14" by simp
  have g: "llm_hero_structured demo_services (vibe_prompt_of demo_state) =
      Inr [''Temple'', ''Garden'', ''Temple'', ''Market'']"
    by (simp add: demo_services_def)
  have d: "duration_days demo_state = 3" by (simp add: demo_state_def)
  have a: "target_count 14 = 56"
    using t [THEN conjunct2, THEN conjunct1, THEN mp, OF r] by simp
  have b: "vp_target_count (vibe_prompt_of demo_state) = 12"
    using t [THEN conjunct2, THEN conjunct2, THEN conjunct2, THEN conjunct2, THEN conjunct2,
      THEN conjunct2, THEN conjunct1] by (simp add: d)
  note c = t [THEN conjunct2, THEN conjunct2, THEN conjunct2, THEN conjunct2, THEN conjunct2,
      THEN conjunct2, THEN conjunct2, THEN conjunct1, THEN mp, OF g]
  show ?thesis using a b c by (intro conjI)
qed

section \<open>Properties of the workflow\<close>

lemma stream_from_END: "stream_from limit sv END state = Inr []"
  by (cases limit) simp_all

lemma gate_clears: "update_state state (await_feedback state) = state\<lparr>user_feedback := None\<rparr>"
  by (simp add: await_feedback_def)

lemma gate_next: "next_node AwaitFeedback (update_state state (await_feedback state)) = END"
  by (simp add: await_feedback_def check_feedback_def truthy_def)

lemma stream_from_gate:
  "stream_from (Suc limit) sv (Some AwaitFeedback) state = Inr [(AwaitFeedback, UserFeedback None)]"
  by (simp add: await_feedback_def check_feedback_def truthy_def stream_from_END Let_def)

lemma stream_one_pass:
  assumes "4 \<le> limit"
  shows "stream_from limit sv (Some VibeInterpreter) state =
     (case vibe_interpreter_agent sv state of
        Inl e \<Rightarrow> Inl e
      | Inr o1 \<Rightarrow>
          (case search_agent sv (update_state state o1) of
             Inl e \<Rightarrow> Inl e
           | Inr o2 \<Rightarrow>
               (case itinerary_agent sv (update_state (update_state state o1) o2) of
                  Inl e \<Rightarrow> Inl e
                | Inr o3 \<Rightarrow>
                    Inr [(VibeInterpreter, o1), (SearchAgent, o2), (ItineraryAgent, o3),
                         (AwaitFeedback, UserFeedback None)])))"
proof -
  from assms have "limit = Suc (Suc (Suc (Suc (limit - 4))))" by arith
  then obtain n where n: "limit = Suc (Suc (Suc (Suc n)))" ..
  have gate: "stream_from (Suc n) sv (Some AwaitFeedback) st =
      Inr [(AwaitFeedback, UserFeedback None)]" for st
    by (rule stream_from_gate)
  have step3: "stream_from (Suc (Suc n)) sv (Some ItineraryAgent) st =
      (case itinerary_agent sv st of
         Inl e \<Rightarrow> Inl e
       | Inr o3 \<Rightarrow> Inr [(ItineraryAgent, o3), (AwaitFeedback, UserFeedback None)])" for st
    by (simp add: gate Let_def del: stream_from.simps split: sum.splits
        add: stream_from.simps(2) [of "Suc n"])
  have step2: "stream_from (Suc (Suc (Suc n))) sv (Some SearchAgent) st =
      (case search_agent sv st of
         Inl e \<Rightarrow> Inl e
       | Inr o2 \<Rightarrow>
           (case itinerary_agent sv (update_state st o2) of
              Inl e \<Rightarrow> Inl e
            | Inr o3 \<Rightarrow>
                Inr [(SearchAgent, o2), (ItineraryAgent, o3), (AwaitFeedback, UserFeedback None)]))"
    for st
    by (simp add: step3 Let_def del: stream_from.simps split: sum.splits
        add: stream_from.simps(2) [of "Suc (Suc n)"])
  show ?thesis
    unfolding n
    by (simp add: step2 Let_def del: stream_from.simps split: sum.splits
        add: stream_from.simps(2) [of "Suc (Suc (Suc n))"])
qed

lemma app_stream_one_pass:
  "app_stream sv state =
     (case vibe_interpreter_agent sv state of
        Inl e \<Rightarrow> Inl e
      | Inr o1 \<Rightarrow>
          (case search_agent sv (update_state state o1) of
             Inl e \<Rightarrow> Inl e
           | Inr o2 \<Rightarrow>
               (case itinerary_agent sv (update_state (update_state state o1) o2) of
                  Inl e \<Rightarrow> Inl e
                | Inr o3 \<Rightarrow>
                    Inr [(VibeInterpreter, o1), (SearchAgent, o2), (ItineraryAgent, o3),
                         (AwaitFeedback, UserFeedback None)])))"
  unfolding app_stream_def by (rule stream_one_pass) (simp add: recursion_limit_def)

lemma app_stream_Inr:
  assumes "app_stream sv state = Inr events"
  shows "\<exists>o1 o2 o3.
           vibe_interpreter_agent sv state = Inr o1
         \<and> search_agent sv (update_state state o1) = Inr o2
         \<and> itinerary_agent sv (update_state (update_state state o1) o2) = Inr o3
         \<and> events = [(VibeInterpreter, o1), (SearchAgent, o2), (ItineraryAgent, o3),
                      (AwaitFeedback, UserFeedback None)]"
  using assms unfolding app_stream_one_pass by (auto split: sum.splits)

lemma app_stream_Inl:
  assumes "app_stream sv state = Inl e"
  shows "vibe_interpreter_agent sv state = Inl e
       \<or> (\<exists>o1. vibe_interpreter_agent sv state = Inr o1
            \<and> (search_agent sv (update_state state o1) = Inl e
               \<or> (\<exists>o2. search_agent sv (update_state state o1) = Inr o2
                    \<and> itinerary_agent sv (update_state (update_state state o1) o2) = Inl e)))"
  using assms unfolding app_stream_one_pass by (auto split: sum.splits)

lemma app_stream_nodes:
  assumes "app_stream sv state = Inr events"
  shows "map fst events = [VibeInterpreter, SearchAgent, ItineraryAgent, AwaitFeedback]
       \<and> user_feedback (apply_events state events) = None"
proof -
  from app_stream_Inr [OF assms] obtain o1 o2 o3 where
    "events = [(VibeInterpreter, o1), (SearchAgent, o2), (ItineraryAgent, o3),
               (AwaitFeedback, UserFeedback None)]"
    by blast
  then show ?thesis by (simp add: apply_events_def)
qed

lemma start_plan_Inr:
  assumes "start_plan sv request = Inr response"
  shows "\<exists>events. app_stream sv (initial_input_of request) = Inr events
           \<and> resp_current_state response = apply_events (initial_input_of request) events"
  using assms by (auto simp: start_plan_def Let_def split: sum.splits)

lemma resume_plan_Inr:
  assumes "resume_plan sv resume = Inr response"
  shows "\<exists>events. app_stream sv (resume_state_of resume) = Inr events
           \<and> resp_current_state response = apply_events (resume_state_of resume) events"
  using assms by (auto simp: resume_plan_def Let_def split: sum.splits)

text \<open>
  Claim C2. With a step limit of at least 4 (the default is 25) the graph runs
  \<open>vibe_interpreter\<close>, \<open>search_agent\<close>, \<open>itinerary_agent\<close> and \<open>await_feedback\<close> once each,
  in this order, and stops, whatever \<open>user_feedback\<close> held at the start; it fails only
  when one of the three agents raises, never by using up its steps. So every start-plan
  and every resume-plan call that returns has run each node exactly once and returns a
  state whose \<open>user_feedback\<close> is \<^verbatim>\<open>None\<close>.
\<close>

theorem run_performs_one_pass:
  "(4 \<le> limit \<longrightarrow>
      stream_from limit sv (Some VibeInterpreter) state =
        (case vibe_interpreter_agent sv state of
           Inl e \<Rightarrow> Inl e
         | Inr o1 \<Rightarrow>
             (case search_agent sv (update_state state o1) of
                Inl e \<Rightarrow> Inl e
              | Inr o2 \<Rightarrow>
                  (case itinerary_agent sv (update_state (update_state state o1) o2) of
                     Inl e \<Rightarrow> Inl e
                   | Inr o3 \<Rightarrow>
                       Inr [(VibeInterpreter, o1), (SearchAgent, o2), (ItineraryAgent, o3),
                            (AwaitFeedback, UserFeedback None)]))))
   \<and> (start_plan sv request = Inr response \<longrightarrow>
        (\<exists>events. app_stream sv (initial_input_of request) = Inr events
           \<and> map fst events = [VibeInterpreter, SearchAgent, ItineraryAgent, AwaitFeedback])
        \<and> user_feedback (resp_current_state response) = None)
   \<and> (resume_plan sv resume = Inr response' \<longrightarrow>
        (\<exists>events. app_stream sv (resume_state_of resume) = Inr events
           \<and> map fst events = [VibeInterpreter, SearchAgent, ItineraryAgent, AwaitFeedback])
        \<and> user_feedback (resp_current_state response') = None)
   \<and> (start_plan sv request = Inl e \<longrightarrow> app_stream sv (initial_input_of request) = Inl e)
   \<and> (resume_plan sv resume = Inl e \<longrightarrow> app_stream sv (resume_state_of resume) = Inl e)
   \<and> (app_stream sv state = Inl e \<longrightarrow>
        vibe_interpreter_agent sv state = Inl e
        \<or> (\<exists>o1. vibe_interpreter_agent sv state = Inr o1
             \<and> (search_agent sv (update_state state o1) = Inl e
                \<or> (\<exists>o2. search_agent sv (update_state state o1) = Inr o2
                     \<and> itinerary_agent sv (update_state (update_state state o1) o2) = Inl e))))"
proof (intro conjI impI)
  assume "4 \<le> limit"
  then show "stream_from limit sv (Some VibeInterpreter) state =
        (case vibe_interpreter_agent sv state of
           Inl e \<Rightarrow> Inl e
         | Inr o1 \<Rightarrow>
             (case search_agent sv (update_state state o1) of
                Inl e \<Rightarrow> Inl e
              | Inr o2 \<Rightarrow>
                  (case itinerary_agent sv (update_state (update_state state o1) o2) of
                     Inl e \<Rightarrow> Inl e
                   | Inr o3 \<Rightarrow>
                       Inr [(VibeInterpreter, o1), (SearchAgent, o2), (ItineraryAgent, o3),
                            (AwaitFeedback, UserFeedback None)])))"
    by (rule stream_one_pass)
next
  assume a: "start_plan sv request = Inr response"
  from start_plan_Inr [OF a] obtain events where
    ev: "app_stream sv (initial_input_of request) = Inr events" and
    st: "resp_current_state response = apply_events (initial_input_of request) events"
    by blast
  show "\<exists>events. app_stream sv (initial_input_of request) = Inr events
           \<and> map fst events = [VibeInterpreter, SearchAgent, ItineraryAgent, AwaitFeedback]"
    by (rule exI [of _ events]) (simp add: ev app_stream_nodes [OF ev])
  from app_stream_nodes [OF ev] st
  show "user_feedback (resp_current_state response) = None" by simp
next
  assume a: "resume_plan sv resume = Inr response'"
  from resume_plan_Inr [OF a] obtain events where
    ev: "app_stream sv (resume_state_of resume) = Inr events" and
    st: "resp_current_state response' = apply_events (resume_state_of resume) events"
    by blast
  show "\<exists>events. app_stream sv (resume_state_of resume) = Inr events
           \<and> map fst events = [VibeInterpreter, SearchAgent, ItineraryAgent, AwaitFeedback]"
    by (rule exI [of _ events]) (simp add: ev app_stream_nodes [OF ev])
  from app_stream_nodes [OF ev] st
  show "user_feedback (resp_current_state response') = None" by simp
next
  assume "start_plan sv request = Inl e"
  then show "app_stream sv (initial_input_of request) = Inl e"
    by (auto simp: start_plan_def Let_def split: sum.splits)
next
  assume "resume_plan sv resume = Inl e"
  then show "app_stream sv (resume_state_of resume) = Inl e"
    by (auto simp: resume_plan_def Let_def split: sum.splits)
next
  assume "app_stream sv state = Inl e"
  then show "vibe_interpreter_agent sv state = Inl e
        \<or> (\<exists>o1. vibe_interpreter_agent sv state = Inr o1
             \<and> (search_agent sv (update_state state o1) = Inl e
                \<or> (\<exists>o2. search_agent sv (update_state state o1) = Inr o2
                     \<and> itinerary_agent sv (update_state (update_state state o1) o2) = Inl e)))"
    by (rule app_stream_Inl)
qed

lemma demo_vibe:
  "vibe_interpreter_agent demo_services (initial_input_of demo_request) =
     Inr (Keywords [''Temple'', ''Garden'', ''Temple'', ''Market''])"
  by (simp add: vibe_interpreter_agent_def demo_services_def)

lemma demo_after_vibe:
  "update_state (initial_input_of demo_request)
     (Keywords [''Temple'', ''Garden'', ''Temple'', ''Market'']) = demo_state"
  by (simp add: initial_input_of_def demo_request_def demo_state_def)

lemma demo_itinerary:
  "search_results state = Some found \<Longrightarrow>
     itinerary_agent demo_services state = Inr (ItineraryDraft ''Day 1'')"
  by (simp add: itinerary_agent_def demo_services_def)

lemma demo_app_stream:
  "app_stream demo_services (initial_input_of demo_request) =
     Inr [(VibeInterpreter, Keywords [''Temple'', ''Garden'', ''Temple'', ''Market'']),
          (SearchAgent, SearchResults demo_found),
          (ItineraryAgent, ItineraryDraft ''Day 1''),
          (AwaitFeedback, UserFeedback None)]"
  unfolding app_stream_one_pass demo_vibe sum.case demo_after_vibe demo_search_agent
  by (simp add: demo_itinerary [of _ demo_found])

lemma demo_start_plan:
  "start_plan demo_services demo_request =
     Inr \<lparr>resp_itinerary_draft = Some ''Day 1'', resp_current_state = demo_final_state\<rparr>"
  unfolding start_plan_def Let_def demo_app_stream
  by (simp add: apply_events_def initial_input_of_def demo_request_def demo_final_state_def
      demo_found_def)

theorem run_performs_one_pass_witness:
  "start_plan demo_services demo_request =
     Inr \<lparr>resp_itinerary_draft = Some ''Day 1'', resp_current_state = demo_final_state\<rparr>
   \<and> (\<exists>events. app_stream demo_services (initial_input_of demo_request) = Inr events
         \<and> map fst events = [VibeInterpreter, SearchAgent, ItineraryAgent, AwaitFeedback])
   \<and> user_feedback demo_final_state = None"
proof -
  note t = run_performs_one_pass [where sv = demo_services and request = demo_request
      and response = "\<lparr>resp_itinerary_draft = Some ''Day 1'', resp_current_state = demo_final_state\<rparr>"
      and limit = 4 and state = demo_state and resume = demo_resume and e = GeneratorError
      and response' = "\<lparr>resp_itinerary_draft = Some ''Day 1'', resp_current_state = demo_final_state\<rparr>"]
  note r = t [THEN conjunct2, THEN conjunct1, THEN mp, OF demo_start_plan]
  have "user_feedback demo_final_state = None"
    using r [THEN conjunct2] by simp
  then show ?thesis using demo_start_plan r [THEN conjunct1] by (intro conjI)
qed

text \<open>
  Claim C1, amended. The gate node \<open>await_feedback\<close> sets \<open>user_feedback\<close> to \<^verbatim>\<open>None\<close> and
  leaves every other field as it is; \<open>check_feedback\<close> is evaluated on the state after
  this update, so the next node is always the end marker and the run stops at the gate,
  whether or not \<open>user_feedback\<close> was empty when the gate was reached. On its own,
  \<open>check_feedback\<close> goes to the end for \<^verbatim>\<open>None\<close> and for the empty string, and to the
  Keyword Synthesizer for a non-empty string.
\<close>

theorem feedback_gate_always_ends:
  "update_state state (await_feedback state) = state\<lparr>user_feedback := None\<rparr>
   \<and> next_node AwaitFeedback (update_state state (await_feedback state)) = END
   \<and> stream_from (Suc limit) sv (Some AwaitFeedback) state =
       Inr [(AwaitFeedback, UserFeedback None)]
   \<and> check_feedback (state\<lparr>user_feedback := None\<rparr>) = END
   \<and> check_feedback (state\<lparr>user_feedback := Some []\<rparr>) = END
   \<and> check_feedback (state\<lparr>user_feedback := Some (c # cs)\<rparr>) = Some VibeInterpreter"
  using gate_clears [of state] gate_next [of state] stream_from_gate [of limit sv state]
  by (simp add: check_feedback_def truthy_def)

theorem feedback_gate_always_ends_witness:
  "user_feedback demo_state = Some ''Start''
   \<and> update_state demo_state (await_feedback demo_state) = demo_state\<lparr>user_feedback := None\<rparr>
   \<and> stream_from recursion_limit demo_services (Some AwaitFeedback) demo_state =
       Inr [(AwaitFeedback, UserFeedback None)]"
proof -
  note t = feedback_gate_always_ends [where state = demo_state and limit = 24
      and sv = demo_services and c = "CHR ''S''" and cs = "''tart''"]
  have f: "user_feedback demo_state = Some ''Start''" by (simp add: demo_state_def)
  have l: "recursion_limit = Suc 24" by (simp add: recursion_limit_def)
  show ?thesis
    using f t [THEN conjunct1] t [THEN conjunct2, THEN conjunct2, THEN conjunct1]
    unfolding l by (intro conjI)
qed

text \<open>
  Claim C1 as stated fails: a state reaches the gate with the non-empty feedback
  \<open>Start\<close>, and the node after the gate is the end marker, not the Keyword Synthesizer;
  the stream from the gate holds the gate's event only.
\<close>

theorem feedback_gate_loops_counterexample:
  "truthy (user_feedback demo_state)
   \<and> next_node AwaitFeedback (update_state demo_state (await_feedback demo_state)) = END
   \<and> next_node AwaitFeedback (update_state demo_state (await_feedback demo_state))
       \<noteq> Some VibeInterpreter
   \<and> stream_from recursion_limit demo_services (Some AwaitFeedback) demo_state =
       Inr [(AwaitFeedback, UserFeedback None)]"
proof -
  have f: "truthy (user_feedback demo_state)" by (simp add: demo_state_def truthy_def)
  have l: "recursion_limit = Suc 24" by (simp add: recursion_limit_def)
  have n: "next_node AwaitFeedback (update_state demo_state (await_feedback demo_state)) = END"
    by (rule gate_next)
  have s: "stream_from recursion_limit demo_services (Some AwaitFeedback) demo_state =
       Inr [(AwaitFeedback, UserFeedback None)]"
    unfolding l by (rule stream_from_gate)
  show ?thesis using f n s by simp
qed

lemma update_state_frame:
  "destination (update_state state out) = destination state"
  "duration_days (update_state state out) = duration_days state"
  "vibe (update_state state out) = vibe state"
  "places_to_avoid (update_state state out) = places_to_avoid state"
  by (cases out; simp)+

lemma apply_events_frame:
  "destination (apply_events state events) = destination state
   \<and> duration_days (apply_events state events) = duration_days state
   \<and> vibe (apply_events state events) = vibe state
   \<and> places_to_avoid (apply_events state events) = places_to_avoid state"
  unfolding apply_events_def
  by (induction events arbitrary: state) (auto simp: update_state_frame)

lemma run_node_output:
  assumes "run_node sv nd state = Inr out"
  shows "case nd of
           VibeInterpreter \<Rightarrow> \<exists>kws. out = Keywords kws
         | SearchAgent \<Rightarrow> \<exists>found. out = SearchResults found
         | ItineraryAgent \<Rightarrow> \<exists>content. out = ItineraryDraft content
         | AwaitFeedback \<Rightarrow> out = UserFeedback None"
  using assms
  by (cases nd)
     (auto simp: vibe_interpreter_agent_def search_agent_def itinerary_agent_def await_feedback_def
       split: sum.splits option.splits)

lemma resume_state_of_frame:
  "destination (resume_state_of resume) = destination (current_state resume)"
  "duration_days (resume_state_of resume) = duration_days (current_state resume)"
  "vibe (resume_state_of resume) = vibe (current_state resume)"
  by (simp_all add: resume_state_of_def Let_def split: option.splits)

lemma resume_state_of_avoid:
  "places_to_avoid (resume_state_of resume) =
     places_to_avoid (current_state resume)
       @ (case place_to_avoid resume of None \<Rightarrow> [] | Some p \<Rightarrow> if p = [] then [] else [p])"
  by (simp add: resume_state_of_def Let_def split: option.splits)

lemma resume_plan_avoid:
  assumes "resume_plan sv resume = Inr response"
  shows "places_to_avoid (resp_current_state response) =
     places_to_avoid (current_state resume)
       @ (case place_to_avoid resume of None \<Rightarrow> [] | Some p \<Rightarrow> if p = [] then [] else [p])"
proof -
  from resume_plan_Inr [OF assms] obtain events where
    "resp_current_state response = apply_events (resume_state_of resume) events"
    by blast
  then show ?thesis by (simp add: apply_events_frame resume_state_of_avoid)
qed

lemma resume_sequence_prefix:
  "prefix (places_to_avoid state) (places_to_avoid (resume_sequence sv state inputs))"
proof (induction inputs arbitrary: state)
  case Nil
  show ?case by simp
next
  case (Cons a inputs)
  obtain feedback_text avoid_new where a: "a = (feedback_text, avoid_new)" by (cases a)
  let ?req = "\<lparr>current_state = state, req_user_feedback = feedback_text,
               place_to_avoid = avoid_new\<rparr>"
  show ?case
  proof (cases "resume_plan sv ?req")
    case (Inl e)
    then show ?thesis using Cons.IH [of state] by (simp add: a)
  next
    case (Inr response)
    have "prefix (places_to_avoid state) (places_to_avoid (resp_current_state response))"
      using resume_plan_avoid [OF Inr] by simp
    moreover have "prefix (places_to_avoid (resp_current_state response))
        (places_to_avoid (resume_sequence sv (resp_current_state response) inputs))"
      by (rule Cons.IH)
    ultimately have "prefix (places_to_avoid state)
        (places_to_avoid (resume_sequence sv (resp_current_state response) inputs))"
      by (rule prefix_order.trans)
    then show ?thesis using Inr by (simp add: a)
  qed
qed

text \<open>
  Claim C8. Resume-plan appends \<open>place_to_avoid\<close> to the avoid list exactly when it is
  present, that is, given and not the empty string (the test is
  \<^verbatim>\<open>if request.place_to_avoid:\<close>), and changes the list in no other way. No node output
  changes the list, so the state returned by resume-plan holds the caller's list with
  at most this one entry appended, start-plan returns the request's list, and over any
  sequence of resume calls, each sent the state of the last successful response, the
  list at the start is an initial segment of the list at the end.
\<close>

theorem places_to_avoid_only_grows:
  "places_to_avoid (resume_state_of resume) =
     places_to_avoid (current_state resume)
       @ (case place_to_avoid resume of None \<Rightarrow> [] | Some p \<Rightarrow> if p = [] then [] else [p])
   \<and> places_to_avoid (update_state state out) = places_to_avoid state
   \<and> (resume_plan sv resume = Inr response \<longrightarrow>
        places_to_avoid (resp_current_state response) =
          places_to_avoid (current_state resume)
            @ (case place_to_avoid resume of None \<Rightarrow> [] | Some p \<Rightarrow> if p = [] then [] else [p])
        \<and> prefix (places_to_avoid (current_state resume))
             (places_to_avoid (resp_current_state response)))
   \<and> (start_plan sv request = Inr response' \<longrightarrow>
        places_to_avoid (resp_current_state response') = req_places_to_avoid request)
   \<and> prefix (places_to_avoid state) (places_to_avoid (resume_sequence sv state inputs))"
proof (intro conjI impI)
  show "places_to_avoid (resume_state_of resume) =
     places_to_avoid (current_state resume)
       @ (case place_to_avoid resume of None \<Rightarrow> [] | Some p \<Rightarrow> if p = [] then [] else [p])"
    by (rule resume_state_of_avoid)
  show "places_to_avoid (update_state state out) = places_to_avoid state"
    by (rule update_state_frame)
  show "prefix (places_to_avoid state) (places_to_avoid (resume_sequence sv state inputs))"
    by (rule resume_sequence_prefix)
next
  assume a: "resume_plan sv resume = Inr response"
  show "places_to_avoid (resp_current_state response) =
     places_to_avoid (current_state resume)
       @ (case place_to_avoid resume of None \<Rightarrow> [] | Some p \<Rightarrow> if p = [] then [] else [p])"
    by (rule resume_plan_avoid [OF a])
  then show "prefix (places_to_avoid (current_state resume))
      (places_to_avoid (resp_current_state response))"
    by simp
next
  assume a: "start_plan sv request = Inr response'"
  from start_plan_Inr [OF a] obtain events where
    "resp_current_state response' = apply_events (initial_input_of request) events"
    by blast
  then show "places_to_avoid (resp_current_state response') = req_places_to_avoid request"
    by (simp add: apply_events_frame initial_input_of_def)
qed

lemma demo_resume_plan:
  "resume_plan demo_services demo_resume =
     Inr \<lparr>resp_itinerary_draft = Some ''Day 1'', resp_current_state = demo_resumed_state\<rparr>"
proof -
  let ?st = "resume_state_of demo_resume"
  let ?kws = "[''Temple'', ''Garden'', ''Temple'', ''Market'']"
  have st: "?st = demo_final_state\<lparr>user_feedback := Some ''fewer temples'',
      places_to_avoid := [''Garden'', ''Temple'']\<rparr>"
    by (simp add: resume_state_of_def demo_resume_def demo_final_state_def)
  have v: "vibe_interpreter_agent demo_services ?st = Inr (Keywords ?kws)"
    by (simp add: vibe_interpreter_agent_def demo_services_def)
  have s: "search_agent demo_services (update_state ?st (Keywords ?kws)) =
      Inr (SearchResults [make_place ''Market'' (demo_location ''Market, Kyoto'')])"
    by (subst demo_search_agent_any) (simp_all add: st demo_final_state_def make_place_def)
  have i: "itinerary_agent demo_services
      (update_state (update_state ?st (Keywords ?kws))
        (SearchResults [make_place ''Market'' (demo_location ''Market, Kyoto'')])) =
      Inr (ItineraryDraft ''Day 1'')"
    by (rule demo_itinerary) simp
  have ev: "app_stream demo_services ?st =
      Inr [(VibeInterpreter, Keywords ?kws),
           (SearchAgent, SearchResults [make_place ''Market'' (demo_location ''Market, Kyoto'')]),
           (ItineraryAgent, ItineraryDraft ''Day 1''),
           (AwaitFeedback, UserFeedback None)]"
    unfolding app_stream_one_pass v sum.case s i by simp
  show ?thesis
    unfolding resume_plan_def Let_def ev
    by (simp add: apply_events_def st demo_final_state_def demo_resumed_state_def)
qed

theorem places_to_avoid_only_grows_witness:
  "resume_plan demo_services demo_resume =
     Inr \<lparr>resp_itinerary_draft = Some ''Day 1'', resp_current_state = demo_resumed_state\<rparr>
   \<and> places_to_avoid (current_state demo_resume) = [''Garden'']
   \<and> places_to_avoid demo_resumed_state = [''Garden'', ''Temple'']
   \<and> prefix (places_to_avoid (current_state demo_resume)) (places_to_avoid demo_resumed_state)"
proof -
  note t = places_to_avoid_only_grows [where sv = demo_services and resume = demo_resume
      and response = "\<lparr>resp_itinerary_draft = Some ''Day 1'',
                        resp_current_state = demo_resumed_state\<rparr>"
      and state = demo_state and out = "UserFeedback None" and request = demo_request
      and response' = "\<lparr>resp_itinerary_draft = Some ''Day 1'',
                         resp_current_state = demo_final_state\<rparr>"
      and inputs = "[]"]
  note r = t [THEN conjunct2, THEN conjunct2, THEN conjunct1, THEN mp, OF demo_resume_plan]
  have a: "places_to_avoid (current_state demo_resume) = [''Garden'']"
    by (simp add: demo_resume_def demo_final_state_def)
  have b: "places_to_avoid demo_resumed_state = [''Garden'', ''Temple'']"
    using r [THEN conjunct1] unfolding a by (simp add: demo_resume_def)
  have c: "prefix (places_to_avoid (current_state demo_resume)) (places_to_avoid demo_resumed_state)"
    using r [THEN conjunct2] by simp
  show ?thesis using demo_resume_plan a b c by (intro conjI)
qed

text \<open>
  Claim C9. Each node's output replaces one field of the state and leaves every other
  field unchanged: \<open>keywords\<close> for the Keyword Synthesizer, \<open>search_results\<close> for the
  Place Search Orchestrator, \<open>itinerary_draft\<close> for the Itinerary Composer and
  \<open>user_feedback\<close> for the gate. No output changes \<open>destination\<close>, \<open>duration_days\<close> or
  \<open>vibe\<close>, so the events of any run, and the states returned by start-plan and
  resume-plan, keep the three as they were given.
\<close>

theorem run_preserves_trip_inputs:
  "(run_node sv nd state = Inr out \<longrightarrow>
      (case nd of
         VibeInterpreter \<Rightarrow> \<exists>kws. update_state state out = state\<lparr>keywords_st := Some kws\<rparr>
       | SearchAgent \<Rightarrow> \<exists>found. update_state state out = state\<lparr>search_results := Some found\<rparr>
       | ItineraryAgent \<Rightarrow>
           \<exists>content. update_state state out = state\<lparr>itinerary_draft := Some content\<rparr>
       | AwaitFeedback \<Rightarrow> update_state state out = state\<lparr>user_feedback := None\<rparr>))
   \<and> destination (update_state state out') = destination state
   \<and> duration_days (update_state state out') = duration_days state
   \<and> vibe (update_state state out') = vibe state
   \<and> (stream_from limit sv start state = Inr events \<longrightarrow>
        destination (apply_events state events) = destination state
        \<and> duration_days (apply_events state events) = duration_days state
        \<and> vibe (apply_events state events) = vibe state)
   \<and> (start_plan sv request = Inr response \<longrightarrow>
        destination (resp_current_state response) = req_destination request
        \<and> duration_days (resp_current_state response) = req_duration_days request
        \<and> vibe (resp_current_state response) = req_vibe request)
   \<and> (resume_plan sv resume = Inr response' \<longrightarrow>
        destination (resp_current_state response') = destination (current_state resume)
        \<and> duration_days (resp_current_state response') = duration_days (current_state resume)
        \<and> vibe (resp_current_state response') = vibe (current_state resume))"
proof (intro conjI impI)
  assume a: "run_node sv nd state = Inr out"
  from run_node_output [OF a]
  show "case nd of
         VibeInterpreter \<Rightarrow> \<exists>kws. update_state state out = state\<lparr>keywords_st := Some kws\<rparr>
       | SearchAgent \<Rightarrow> \<exists>found. update_state state out = state\<lparr>search_results := Some found\<rparr>
       | ItineraryAgent \<Rightarrow>
           \<exists>content. update_state state out = state\<lparr>itinerary_draft := Some content\<rparr>
       | AwaitFeedback \<Rightarrow> update_state state out = state\<lparr>user_feedback := None\<rparr>"
    by (cases nd) auto
next
  show "destination (update_state state out') = destination state"
    "duration_days (update_state state out') = duration_days state"
    "vibe (update_state state out') = vibe state"
    by (rule update_state_frame)+
next
  show "destination (apply_events state events) = destination state"
    "duration_days (apply_events state events) = duration_days state"
    "vibe (apply_events state events) = vibe state"
    by (simp_all add: apply_events_frame)
next
  assume a: "start_plan sv request = Inr response"
  from start_plan_Inr [OF a] obtain events where
    st: "resp_current_state response = apply_events (initial_input_of request) events"
    by blast
  show "destination (resp_current_state response) = req_destination request"
    "duration_days (resp_current_state response) = req_duration_days request"
    "vibe (resp_current_state response) = req_vibe request"
    by (simp_all add: st apply_events_frame initial_input_of_def)
next
  assume a: "resume_plan sv resume = Inr response'"
  from resume_plan_Inr [OF a] obtain events where
    st: "resp_current_state response' = apply_events (resume_state_of resume) events"
    by blast
  show "destination (resp_current_state response') = destination (current_state resume)"
    "duration_days (resp_current_state response') = duration_days (current_state resume)"
    "vibe (resp_current_state response') = vibe (current_state resume)"
    by (simp_all add: st apply_events_frame resume_state_of_frame)
qed

theorem run_preserves_trip_inputs_witness:
  "start_plan demo_services demo_request =
     Inr \<lparr>resp_itinerary_draft = Some ''Day 1'', resp_current_state = demo_final_state\<rparr>
   \<and> destination demo_final_state = ''Kyoto''
   \<and> duration_days demo_final_state = 3
   \<and> vibe demo_final_state = ''zen''
   \<and> run_node demo_services AwaitFeedback demo_state = Inr (UserFeedback None)
   \<and> update_state demo_state (UserFeedback None) = demo_state\<lparr>user_feedback := None\<rparr>"
proof -
  note t = run_preserves_trip_inputs [where sv = demo_services and nd = AwaitFeedback
      and state = demo_state and out = "UserFeedback None" and out' = "UserFeedback None"
      and limit = 4 and start = END and events = "[]" and request = demo_request
      and response = "\<lparr>resp_itinerary_draft = Some ''Day 1'',
                        resp_current_state = demo_final_state\<rparr>"
      and resume = demo_resume
      and response' = "\<lparr>resp_itinerary_draft = Some ''Day 1'',
                         resp_current_state = demo_resumed_state\<rparr>"]
  have n: "run_node demo_services AwaitFeedback demo_state = Inr (UserFeedback None)"
    by (simp add: await_feedback_def)
  have g: "update_state demo_state (UserFeedback None) = demo_state\<lparr>user_feedback := None\<rparr>"
    using t [THEN conjunct1, THEN mp, OF n] by simp
  note s = t [THEN conjunct2, THEN conjunct2, THEN conjunct2, THEN conjunct2, THEN conjunct2,
      THEN conjunct1, THEN mp, OF demo_start_plan]
  have d: "destination demo_final_state = ''Kyoto''"
    "duration_days demo_final_state = 3" "vibe demo_final_state = ''zen''"
    using s by (simp_all add: demo_request_def)
  show ?thesis using demo_start_plan d n g by (intro conjI)
qed

end
